theory Spec2Isabelle
  imports Complex_Main "HOL-Library.Product_Lexorder" "HOL-Library.List_Lexorder"
begin

section \<open>Python strings\<close>

text \<open>
  A Python \<^verbatim>\<open>str\<close> is a sequence of Unicode code points, so it is modelled as the list
  of its code points. \<open>ascii\<close> embeds an ASCII literal.
\<close>

type_synonym ustr = "nat list"

definition ascii :: "string \<Rightarrow> ustr" where
  "ascii s = map of_char s"

text \<open>
  \<^verbatim>\<open>str.isspace\<close> on one code point: the code points that \<^verbatim>\<open>str.strip()\<close> removes.
\<close>

definition isspace :: "nat \<Rightarrow> bool" where
  "isspace c \<longleftrightarrow>
     (9 \<le> c \<and> c \<le> 13) \<or> (28 \<le> c \<and> c \<le> 32) \<or> c = 133 \<or> c = 160 \<or> c = 5760 \<or>
     (8192 \<le> c \<and> c \<le> 8202) \<or> c = 8232 \<or> c = 8233 \<or> c = 8239 \<or> c = 8287 \<or> c = 12288"

definition strip :: "ustr \<Rightarrow> ustr" where
  "strip s = rev (dropWhile isspace (rev (dropWhile isspace s)))"

text \<open>
  \<^verbatim>\<open>str.lower()\<close> is modelled on the letters A to Z. The script only ever tests the
  lowered string for an ASCII prefix or suffix (\<^verbatim>\<open>http://\<close>, \<^verbatim>\<open>https://\<close>, \<^verbatim>\<open>unnamed\<close>,
  \<^verbatim>\<open>.csv\<close>), and no code point outside ASCII lowers to a string that contains one of
  the characters of these patterns, so the tests come out as in Python.
\<close>

definition lower_cp :: "nat \<Rightarrow> nat" where
  "lower_cp c = (if 65 \<le> c \<and> c \<le> 90 then c + 32 else c)"

definition lower :: "ustr \<Rightarrow> ustr" where
  "lower s = map lower_cp s"

definition startswith :: "ustr \<Rightarrow> ustr \<Rightarrow> bool" where
  "startswith s p \<longleftrightarrow> take (length p) s = p"

definition endswith :: "ustr \<Rightarrow> ustr \<Rightarrow> bool" where
  "endswith s p \<longleftrightarrow> length p \<le> length s \<and> drop (length s - length p) s = p"

section \<open>Field presentation helpers\<close>

text \<open>
  The placeholder that \<^verbatim>\<open>get_or_blank\<close> returns and \<^verbatim>\<open>normalize_url\<close> tests for. The
  literal in the source file is the three code points U+201A, U+00C4, U+00EE.
\<close>

definition PLACEHOLDER :: ustr where
  "PLACEHOLDER = [8218, 196, 238]"

definition normalize_url :: "ustr \<Rightarrow> ustr" where
  "normalize_url url =
     (if url = [] \<or> url = PLACEHOLDER then []
      else let u = strip url in
        if \<not> (startswith (lower u) (ascii ''http://'') \<or> startswith (lower u) (ascii ''https://''))
        then ascii ''https://'' @ u
        else u)"

text \<open>The scheme test of \<^verbatim>\<open>normalize_url\<close>, named for the statements below.\<close>

definition has_scheme :: "ustr \<Rightarrow> bool" where
  "has_scheme u \<longleftrightarrow>
     startswith (lower u) (ascii ''http://'') \<or> startswith (lower u) (ascii ''https://'')"

section \<open>Tabular data\<close>

text \<open>
  A pandas cell is missing (\<open>NA\<close>: \<^verbatim>\<open>pd.NA\<close>, NaN), a number or a text. A row maps
  column names to cells, as \<^verbatim>\<open>row[col]\<close> does; a frame is its column index and its rows
  in positional order (the script resets the index after every reordering, so a row's
  label is its position). Column names are taken to be pairwise distinct. A number is
  an exact real: whole numbers and fractions alike, without the rounding and the
  infinities of floating point. A tag column is a numeric column: a text cell there
  counts 0 in a tag sum.
\<close>

datatype cell = NA | Num real | Str ustr

type_synonym row = "ustr \<rightharpoonup> cell"

record frame =
  columns :: "ustr list"
  rows :: "row list"

datatype exn = ParserError | ValueError string | TypeError | KeyError | IndexError

subsection \<open>Constants\<close>

definition ORDER_COL :: ustr where
  "ORDER_COL = ascii ''__row_order''"

definition MAIN_FLAG_COL :: ustr where
  "MAIN_FLAG_COL = ascii ''compound_semiconductor''"

definition COL_COMPANY :: ustr where
  "COL_COMPANY = ascii ''Company name Latin alphabet''"

definition COL_TRADE_EN :: ustr where
  "COL_TRADE_EN = ascii ''Trade description (English)''"

definition COL_DESC :: ustr where
  "COL_DESC = ascii ''Description and history''"

definition COL_WEBSITE :: ustr where
  "COL_WEBSITE = ascii ''Website address''"

definition COL_PRI_IND_D :: ustr where
  "COL_PRI_IND_D = ascii ''Primary code in national industry classification - description''"

definition COL_SEC_IND_D :: ustr where
  "COL_SEC_IND_D = ascii ''Secondary code in national industry classification - description''"

definition COL_BVD_SECT :: ustr where
  "COL_BVD_SECT = ascii ''BvD sectors''"

definition NOTES_COL :: ustr where
  \<comment> \<open>the literal \<^verbatim>\<open>"notes"\<close> of the source\<close>
  "NOTES_COL = ascii ''notes''"

definition SUPPLY_CHAIN_COLS :: "ustr list" where
  "SUPPLY_CHAIN_COLS =
     [ascii ''supply_chain_Substrate'',
      ascii ''supply_chain_Epiwafer'',
      ascii ''supply_chain_Device_Design'',
      ascii ''supply_chain_Chip_Processing'',
      ascii ''supply_chain_Package'',
      ascii ''supply_chain_Equipment'']"

definition FUNCTIONAL_COLS :: "ustr list" where
  "FUNCTIONAL_COLS =
     [ascii ''functional_taxonomy_Compound RF'',
      ascii ''functional_taxonomy_Compound Photonic'',
      ascii ''functional_taxonomy_Compound Sensors'',
      ascii ''functional_taxonomy_Power Devices'']"

definition TAG_COLS :: "ustr list" where
  "TAG_COLS = SUPPLY_CHAIN_COLS @ FUNCTIONAL_COLS"

subsection \<open>The pandas operations the script uses\<close>

definition isna :: "cell option \<Rightarrow> bool" where
  \<comment> \<open>\<^verbatim>\<open>pd.isna\<close> of a cell; a cell the row does not hold counts as missing\<close>
  "isna c \<longleftrightarrow> c = Some NA \<or> c = None"

fun num :: "cell option \<Rightarrow> real" where
  \<comment> \<open>the contribution of a cell to \<^verbatim>\<open>sum(axis=1)\<close>: missing cells are skipped, and a tag
      column is numeric, so a text cell adds nothing\<close>
  "num (Some (Num n)) = n"
| "num _ = 0"

definition cell_eq :: "cell option \<Rightarrow> cell option \<Rightarrow> bool" where
  \<comment> \<open>the elementwise \<^verbatim>\<open>==\<close> of a column with a scalar: a missing value equals nothing\<close>
  "cell_eq a b \<longleftrightarrow> \<not> isna a \<and> a = b"

definition add_column :: "ustr \<Rightarrow> cell \<Rightarrow> frame \<Rightarrow> frame" where
  \<comment> \<open>\<^verbatim>\<open>df[c] = v\<close> for a scalar \<open>v\<close> and a column the frame does not have\<close>
  "add_column c v f = f\<lparr>columns := columns f @ [c], rows := map (\<lambda>r. r(c \<mapsto> v)) (rows f)\<rparr>"

definition ensure_column :: "cell \<Rightarrow> ustr \<Rightarrow> frame \<Rightarrow> frame" where
  \<comment> \<open>\<^verbatim>\<open>if c not in df.columns: df[c] = v\<close>\<close>
  "ensure_column v c f = (if c \<notin> set (columns f) then add_column c v f else f)"

definition drop_column :: "ustr \<Rightarrow> frame \<Rightarrow> frame" where
  \<comment> \<open>\<^verbatim>\<open>df.drop(columns=[c])\<close>\<close>
  "drop_column c f =
     f\<lparr>columns := filter (\<lambda>x. x \<noteq> c) (columns f), rows := map (\<lambda>r. r(c := None)) (rows f)\<rparr>"

definition assign_range :: "ustr \<Rightarrow> frame \<Rightarrow> frame" where
  \<comment> \<open>\<^verbatim>\<open>df[c] = range(1, len(df) + 1)\<close> for a column the frame does not have\<close>
  "assign_range c f =
     f\<lparr>columns := columns f @ [c],
       rows := map (\<lambda>(i, r). r(c \<mapsto> Num (real i + 1))) (enumerate 0 (rows f))\<rparr>"

fun sort_rank :: "cell option \<Rightarrow> nat \<times> real \<times> ustr" where
  \<comment> \<open>the sorting key of a cell: numbers by value, texts by code points, missing
      values last (\<^verbatim>\<open>na_position="last"\<close>)\<close>
  "sort_rank (Some (Num n)) = (0, n, [])"
| "sort_rank (Some (Str t)) = (1, 0, t)"
| "sort_rank _ = (2, 0, [])"

fun is_Num :: "cell option \<Rightarrow> bool" where
  "is_Num (Some (Num n)) = True"
| "is_Num _ = False"

fun is_Str :: "cell option \<Rightarrow> bool" where
  "is_Str (Some (Str t)) = True"
| "is_Str _ = False"

definition sort_values :: "ustr \<Rightarrow> frame \<Rightarrow> exn + frame" where
  \<comment> \<open>\<^verbatim>\<open>df.sort_values(c, kind="stable").reset_index(drop=True)\<close>; numbers and texts in
      one column cannot be compared\<close>
  "sort_values c f =
     (if c \<notin> set (columns f) then Inl KeyError
      else if (\<exists>r \<in> set (rows f). is_Num (r c)) \<and> (\<exists>r \<in> set (rows f). is_Str (r c))
      then Inl TypeError
      else Inr (f\<lparr>rows := sort_key (\<lambda>r. sort_rank (r c)) (rows f)\<rparr>))"

definition set_loc :: "nat \<Rightarrow> ustr \<Rightarrow> cell \<Rightarrow> frame \<Rightarrow> frame" where
  \<comment> \<open>\<^verbatim>\<open>df.loc[pos, c] = v\<close> for a position of the frame; a column the frame does not
      have is created, missing in every other row\<close>
  "set_loc pos c v f =
     (let g = (if c \<notin> set (columns f) then add_column c NA f else f)
      in g\<lparr>rows := (rows g)[pos := (rows g ! pos)(c \<mapsto> v)]\<rparr>)"

fun first_index :: "('a \<Rightarrow> bool) \<Rightarrow> 'a list \<Rightarrow> nat option" where
  \<comment> \<open>\<^verbatim>\<open>df.index[mask][0]\<close>: the first position where the mask holds\<close>
  "first_index P [] = None"
| "first_index P (x # xs) =
     (if P x then Some 0 else map_option Suc (first_index P xs))"

text \<open>
  Python's \<^verbatim>\<open>int(x)\<close>, which the script applies to order keys. On a number it cuts the
  fraction off, towards zero; on a missing value it raises. What it makes of a text
  (the integer the text spells, or a \<^verbatim>\<open>ValueError\<close>) is left to the interpreter: it is the
  parameter \<open>text_int\<close> of the model, \<open>None\<close> standing for the exception.
\<close>

definition py_trunc :: "real \<Rightarrow> int" where
  "py_trunc x = (if 0 \<le> x then \<lfloor>x\<rfloor> else \<lceil>x\<rceil>)"

definition py_int :: "(ustr \<Rightarrow> int option) \<Rightarrow> cell option \<Rightarrow> exn + int" where
  "py_int text_int c =
     (case c of
        Some (Num x) \<Rightarrow> Inr (py_trunc x)
      | Some (Str t) \<Rightarrow>
         (case text_int t of Some n \<Rightarrow> Inr n | None \<Rightarrow> Inl (ValueError ''int''))
      | _ \<Rightarrow> Inl (ValueError ''int''))"

section \<open>Loading\<close>

text \<open>
  The uploaded file, with what the parsers of the dataframe library make of it:
  \<open>read_csv\<close> is the result of \<^verbatim>\<open>pd.read_csv(file)\<close>, \<open>excel_file\<close> that of
  \<^verbatim>\<open>pd.ExcelFile(file)\<close>, the sheets by name with the result of reading each.
\<close>

record upload =
  name :: ustr
  read_csv :: "exn + frame"
  excel_file :: "exn + (ustr \<times> (exn + frame)) list"

definition load_input :: "upload \<Rightarrow> exn + frame" where
  "load_input file =
     (if endswith (lower (name file)) (ascii ''.csv'') then read_csv file
      else case excel_file file of
          Inl e \<Rightarrow> Inl e
        | Inr sheets \<Rightarrow>
           (if ascii ''Results'' \<notin> set (map fst sheets)
            then Inl (ValueError ''Sheet 'Results' not found in Excel'')
            else case map_of sheets (ascii ''Results'') of
                Some r \<Rightarrow> r
              | None \<Rightarrow> Inl (ValueError ''Sheet 'Results' not found in Excel'')))"

definition is_unnamed :: "ustr \<Rightarrow> bool" where
  \<comment> \<open>\<^verbatim>\<open>str(c).strip().lower().startswith("unnamed")\<close>\<close>
  "is_unnamed c \<longleftrightarrow> startswith (lower (strip c)) (ascii ''unnamed'')"

definition ensure_order :: "frame \<Rightarrow> exn + frame" where
  "ensure_order df =
     (let df1 = fold (\<lambda>c d. if is_unnamed c then drop_column c d else d) (columns df) df;
          df2 = (if ORDER_COL \<notin> set (columns df1) then assign_range ORDER_COL df1 else df1)
      in sort_values ORDER_COL df2)"

definition needed :: "ustr list" where
  "needed = [COL_COMPANY, COL_TRADE_EN, COL_DESC, COL_WEBSITE, COL_PRI_IND_D, COL_SEC_IND_D,
             COL_BVD_SECT]"

definition prepare :: "frame \<Rightarrow> exn + frame" where
  \<comment> \<open>the body of the \<^verbatim>\<open>try\<close> block after \<^verbatim>\<open>load_input\<close>\<close>
  "prepare df0 =
     (let df1 = fold (ensure_column NA) needed df0;
          df2 = fold (ensure_column (Num 0)) TAG_COLS df1;
          df3 = ensure_column NA MAIN_FLAG_COL df2;
          df4 = ensure_column NA NOTES_COL df3
      in ensure_order df4)"

section \<open>Session state and widgets\<close>

text \<open>
  The staging buffer is the dictionary \<^verbatim>\<open>st.session_state.staged\<close>; the session holds
  the four keys the script keeps in \<^verbatim>\<open>st.session_state\<close>. The cursor only ever takes
  the values \<open>0\<close>, \<^verbatim>\<open>max(0, idx - 1)\<close> and \<^verbatim>\<open>min(len(view) - 1, idx + 1)\<close> for a
  non-empty view, so it is a natural number.
\<close>

record staged_state =
  order :: int
  flag :: "bool option"
  tags :: "ustr \<rightharpoonup> bool"
  "notes" :: ustr

record session =
  df :: "frame option"
  view_idx :: nat
  filter_unlabeled :: bool
  staged :: "staged_state option"

definition initial_session :: session where
  "initial_session = \<lparr>df = None, view_idx = 0, filter_unlabeled = True, staged = None\<rparr>"

text \<open>
  One pass of the script reads what the toolkit's widgets return: the uploaded file,
  the radio choice, the ten tag checkboxes, the notes text, what each of the three
  \<^verbatim>\<open>st.button\<close> calls returns (\<open>True\<close> in the pass a click triggers) and the
  acknowledgment checkbox. The script branches on what a button returns and on nothing
  else; that it hands \<^verbatim>\<open>disabled=save_disabled\<close> to the Save button is recorded in the
  outcome, and what the toolkit makes of that argument is not part of the script. The
  toolbar checkbox is bound to the session key \<^verbatim>\<open>filter_unlabeled\<close>, so the toolkit writes
  the operator's toggle into the session before the pass and the script only reads it.
\<close>

datatype choice = ChoiceSelect | ChoiceY | ChoiceN

record widgets =
  uploaded :: "upload option"
  cs_choice :: choice
  tag_checked :: "ustr \<Rightarrow> bool"
  notes_new :: ustr
  prev_clicked :: bool
  skip_clicked :: bool
  save_clicked :: bool
  allow_checked :: bool

datatype button = Prev | Skip | Save

text \<open>
  How a pass ends: without data (\<^verbatim>\<open>st.stop()\<close> after the upload prompt), with the empty
  view (the enabled download button, then \<^verbatim>\<open>st.stop()\<close>), with an uncaught exception,
  with \<^verbatim>\<open>st.rerun()\<close> after a button, or with the export section rendered:
  \<open>Rendered save_disabled warning download_disabled\<close>.
\<close>

datatype outcome = NoData | AllLabeled | Crashed exn | Rerun button | Rendered bool bool bool

section \<open>The script\<close>

definition load_branch :: "widgets \<Rightarrow> session \<Rightarrow> session \<times> exn option" where
  \<comment> \<open>the load block; the second component is the exception \<^verbatim>\<open>st.error\<close> reports\<close>
  "load_branch w s =
     (if uploaded w \<noteq> None \<and> df s = None then
        (case load_input (the (uploaded w)) of
           Inl e \<Rightarrow> (s, Some e)
         | Inr df0 \<Rightarrow>
            (case prepare df0 of
               Inl e \<Rightarrow> (s, Some e)
             | Inr d \<Rightarrow> (s\<lparr>df := Some d\<rparr>, None)))
      else (s, None))"

definition tag_sum :: "frame \<Rightarrow> row \<Rightarrow> real" where
  \<comment> \<open>\<^verbatim>\<open>df[[c for c in TAG_COLS if c in df.columns]].sum(axis=1)\<close>, for one row\<close>
  "tag_sum f r = sum_list (map (\<lambda>c. num (r c)) (filter (\<lambda>c. c \<in> set (columns f)) TAG_COLS))"

definition unlabeled_mask :: "frame \<Rightarrow> row \<Rightarrow> bool" where
  "unlabeled_mask f r \<longleftrightarrow> tag_sum f r = 0 \<and> isna (r MAIN_FLAG_COL)"

definition remaining :: "frame \<Rightarrow> nat" where
  "remaining f = length (filter (unlabeled_mask f) (rows f))"

definition view :: "frame \<Rightarrow> bool \<Rightarrow> row list" where
  "view f only_unlabeled = (if only_unlabeled then filter (unlabeled_mask f) (rows f) else rows f)"

definition view_idx_check :: "session \<Rightarrow> row list \<Rightarrow> session" where
  \<comment> \<open>the bounds check of the cursor\<close>
  "view_idx_check s v = (if view_idx s \<ge> length v then s\<lparr>view_idx := 0\<rparr> else s)"

definition real_pos :: "frame \<Rightarrow> row \<Rightarrow> nat option" where
  \<comment> \<open>\<^verbatim>\<open>df.index[df[ORDER_COL] == row[ORDER_COL]][0]\<close>\<close>
  "real_pos f r = first_index (\<lambda>x. cell_eq (x ORDER_COL) (r ORDER_COL)) (rows f)"

definition init_staged_state ::
  "(ustr \<Rightarrow> int option) \<Rightarrow> cell option \<Rightarrow> session \<Rightarrow> exn + session" where
  "init_staged_state text_int order_val s =
     (case py_int text_int order_val of
        Inl e \<Rightarrow> Inl e
      | Inr n \<Rightarrow>
          Inr (s\<lparr>staged := Some \<lparr>order = n, flag = None,
                                  tags = map_of (map (\<lambda>c. (c, False)) TAG_COLS),
                                  notes = []\<rparr>\<rparr>))"

definition load_record ::
  "(ustr \<Rightarrow> int option) \<Rightarrow> row \<Rightarrow> session \<Rightarrow> exn + session" where
  \<comment> \<open>the staging buffer is initialised when it is empty or points to another row\<close>
  "load_record text_int r s =
     (case staged s of
        None \<Rightarrow> init_staged_state text_int (r ORDER_COL) s
      | Some b \<Rightarrow>
         (case py_int text_int (r ORDER_COL) of
            Inl e \<Rightarrow> Inl e
          | Inr n \<Rightarrow>
              if order b \<noteq> n then init_staged_state text_int (r ORDER_COL) s else Inr s))"

definition edit_staged :: "widgets \<Rightarrow> staged_state \<Rightarrow> staged_state" where
  \<comment> \<open>the right-hand column: every widget's value is written into the buffer\<close>
  "edit_staged w b =
     b\<lparr>flag := (case cs_choice w of
                  ChoiceSelect \<Rightarrow> None
                | ChoiceY \<Rightarrow> Some True
                | ChoiceN \<Rightarrow> Some False),
       tags := fold (\<lambda>c t. t(c \<mapsto> tag_checked w c)) FUNCTIONAL_COLS
                 (fold (\<lambda>c t. t(c \<mapsto> tag_checked w c)) SUPPLY_CHAIN_COLS (tags b)),
       notes := notes_new w\<rparr>"

definition commit :: "nat \<Rightarrow> staged_state \<Rightarrow> frame \<Rightarrow> frame" where
  \<comment> \<open>the writes of Save \<^verbatim>\<open>&\<close> Next into the row at \<open>pos\<close>\<close>
  "commit pos b f =
     (let f1 = set_loc pos MAIN_FLAG_COL
                 (Str (if flag b = Some True then ascii ''Y'' else ascii ''N'')) f;
          f2 = fold (\<lambda>c. set_loc pos c
                 (Num (if (case tags b c of Some t \<Rightarrow> t | None \<Rightarrow> False) then 1 else 0)))
                 TAG_COLS f1
      in set_loc pos NOTES_COL (Str (notes b)) f2)"

definition next_idx :: "row list \<Rightarrow> nat \<Rightarrow> nat" where
  \<comment> \<open>\<^verbatim>\<open>min(len(view) - 1, idx + 1)\<close>\<close>
  "next_idx v idx = nat (min (int (length v) - 1) (int idx + 1))"

definition prev_idx :: "nat \<Rightarrow> nat" where
  \<comment> \<open>\<^verbatim>\<open>max(0, idx - 1)\<close>\<close>
  "prev_idx idx = nat (max 0 (int idx - 1))"

definition script ::
  "(ustr \<Rightarrow> int option) \<Rightarrow> widgets \<Rightarrow> session \<Rightarrow> frame \<Rightarrow> session \<times> outcome" where
  \<comment> \<open>the script from the toolbar on, for the frame \<open>f\<close> the session holds\<close>
  "script text_int w s f =
     (if MAIN_FLAG_COL \<notin> set (columns f) then (s, Crashed KeyError)
      else let v = view f (filter_unlabeled s) in
        if length v = 0 then (s, AllLabeled)
        else let s1 = view_idx_check s v;
                 idx = view_idx s1;
                 r = v ! idx in
          if ORDER_COL \<notin> set (columns f) then (s1, Crashed KeyError)
          else case real_pos f r of
              None \<Rightarrow> (s1, Crashed IndexError)
            | Some pos \<Rightarrow>
               (case load_record text_int r s1 of
                  Inl e \<Rightarrow> (s1, Crashed e)
                | Inr s2 \<Rightarrow>
                   (case staged s2 of
                      None \<Rightarrow> (s2, Crashed TypeError)
                    | Some b0 \<Rightarrow>
                        let b = edit_staged w b0;
                            s3 = s2\<lparr>staged := Some b\<rparr> in
                        if prev_clicked w
                        then (s3\<lparr>view_idx := prev_idx idx, staged := None\<rparr>, Rerun Prev)
                        else if skip_clicked w
                        then (s3\<lparr>view_idx := next_idx v idx, staged := None\<rparr>, Rerun Skip)
                        else let save_disabled = (flag b = None) in
                          if save_clicked w
                          then (s3\<lparr>df := Some (commit pos b f),
                                    view_idx := next_idx v idx, staged := None\<rparr>, Rerun Save)
                          else let allow_export =
                                     (if remaining f > 0 then allow_checked w else True)
                               in (s3, Rendered save_disabled (remaining f > 0)
                                         (\<not> allow_export)))))"

text \<open>
  Names for the script's \<^verbatim>\<open>idx\<close> and \<^verbatim>\<open>row\<close> after the bounds check, and for the
  columns the load block creates when the upload lacks them.
\<close>

definition cursor :: "session \<Rightarrow> frame \<Rightarrow> nat" where
  "cursor s f = view_idx (view_idx_check s (view f (filter_unlabeled s)))"

definition displayed :: "session \<Rightarrow> frame \<Rightarrow> row" where
  "displayed s f = view f (filter_unlabeled s) ! cursor s f"

definition has_columns :: "frame \<Rightarrow> bool" where
  "has_columns f \<longleftrightarrow>
     set (MAIN_FLAG_COL # NOTES_COL # ORDER_COL # TAG_COLS) \<subseteq> set (columns f)"

definition run ::
  "(ustr \<Rightarrow> int option) \<Rightarrow> widgets \<Rightarrow> session \<Rightarrow> session \<times> exn option \<times> outcome" where
  \<comment> \<open>one pass of the whole script\<close>
  "run text_int w s =
     (let (s0, err) = load_branch w s in
      case df s0 of
        None \<Rightarrow> (s0, err, NoData)
      | Some f \<Rightarrow> (let (s', out) = script text_int w s0 f in (s', err, out)))"

section \<open>Auxiliary definitions\<close>

text \<open>
  The row that Save \<^verbatim>\<open>&\<close> Next leaves at the written position, from the staging
  buffer and, as the buffer holds the widgets' values at that point, from the widgets.
\<close>

definition commit_row :: "staged_state \<Rightarrow> row \<Rightarrow> row" where
  "commit_row b r =
     (fold (\<lambda>c r. r(c \<mapsto> Num (if (case tags b c of Some t \<Rightarrow> t | None \<Rightarrow> False) then 1 else 0)))
        TAG_COLS
        (r(MAIN_FLAG_COL \<mapsto> Str (if flag b = Some True then ascii ''Y'' else ascii ''N''))))
     (NOTES_COL \<mapsto> Str (notes b))"

definition saved_row :: "widgets \<Rightarrow> row \<Rightarrow> row" where
  "saved_row w r =
     (fold (\<lambda>c r. r(c \<mapsto> Num (if tag_checked w c then 1 else 0))) TAG_COLS
        (r(MAIN_FLAG_COL \<mapsto> Str (if cs_choice w = ChoiceY then ascii ''Y'' else ascii ''N''))))
     (NOTES_COL \<mapsto> Str (notes_new w))"

text \<open>
  Example data: a Dataset of three unlabeled records with the order keys 1, 2, 3, the
  same without records, and a session on the first record with and without staged edits.
\<close>

definition no_text_int :: "ustr \<Rightarrow> int option" where
  \<comment> \<open>for the examples, whose order keys are numbers: no text is converted\<close>
  "no_text_int t = None"

definition blank_record :: "real \<Rightarrow> row" where
  "blank_record n =
     map_of ((ORDER_COL, Num n) # (MAIN_FLAG_COL, NA) # (NOTES_COL, NA) #
             map (\<lambda>c. (c, Num 0)) TAG_COLS)"

definition labeled_record :: "real \<Rightarrow> row" where
  "labeled_record n = (blank_record n)(MAIN_FLAG_COL \<mapsto> Str (ascii ''N''))"

definition example_frame :: frame where
  "example_frame =
     \<lparr>columns = ORDER_COL # MAIN_FLAG_COL # NOTES_COL # TAG_COLS,
      rows = [blank_record 1, blank_record 2, blank_record 3]\<rparr>"

definition empty_frame :: frame where
  "empty_frame = \<lparr>columns = ORDER_COL # MAIN_FLAG_COL # NOTES_COL # TAG_COLS, rows = []\<rparr>"

definition example_session :: session where
  "example_session =
     \<lparr>df = Some example_frame, view_idx = 0, filter_unlabeled = True, staged = None\<rparr>"

definition editing_session :: session where
  "editing_session =
     example_session\<lparr>staged := Some \<lparr>order = 1, flag = Some False,
                                       tags = Map.empty, notes = ascii ''kept''\<rparr>\<rparr>"

text \<open>Widget values: nothing pressed, Skip pressed after edits, Save pressed with the flag set.\<close>

definition idle_widgets :: widgets where
  "idle_widgets =
     \<lparr>uploaded = None, cs_choice = ChoiceSelect, tag_checked = (\<lambda>c. False), notes_new = [],
      prev_clicked = False, skip_clicked = False, save_clicked = False,
      allow_checked = False\<rparr>"

definition skip_widgets :: widgets where
  "skip_widgets =
     idle_widgets\<lparr>cs_choice := ChoiceY, tag_checked := (\<lambda>c. True), notes_new := ascii ''edited'',
                  skip_clicked := True\<rparr>"

definition save_widgets :: widgets where
  "save_widgets =
     idle_widgets\<lparr>cs_choice := ChoiceY,
                  tag_checked := (\<lambda>c. c = ascii ''supply_chain_Package''),
                  notes_new := ascii ''GaN foundry'', save_clicked := True\<rparr>"

text \<open>
  Uploads: a workbook without a \<^verbatim>\<open>Results\<close> sheet, a CSV file that does not parse, and a
  parsed table of two rows without the order column.
\<close>

definition workbook_upload :: upload where
  "workbook_upload =
     \<lparr>name = ascii ''Companies.XLSX'', read_csv = Inl ParserError,
      excel_file = Inr [(ascii ''Sheet1'', Inr \<lparr>columns = [], rows = []\<rparr>)]\<rparr>"

definition broken_upload :: upload where
  "broken_upload =
     \<lparr>name = ascii ''Companies.CSV'', read_csv = Inl ParserError, excel_file = Inl ParserError\<rparr>"

definition raw_frame :: frame where
  "raw_frame =
     \<lparr>columns = [COL_COMPANY],
      rows = [[COL_COMPANY \<mapsto> Str (ascii ''Acme'')], [COL_COMPANY \<mapsto> Str (ascii ''Bolt'')]]\<rparr>"

text \<open>
  A Dataset whose order keys are fractions with the same integer part: a record labeled
  \<^verbatim>\<open>N\<close> with the key 1.2 and an unlabeled record with the key 1.7. The session that
  displays the unlabeled record, the widgets after the operator chose \<^verbatim>\<open>Y\<close> and wrote a
  note, the buffer that pass leaves, and the session with that buffer once the filter
  is switched off.
\<close>

definition fractional_frame :: frame where
  "fractional_frame =
     \<lparr>columns = ORDER_COL # MAIN_FLAG_COL # NOTES_COL # TAG_COLS,
      rows = [labeled_record (12 / 10), blank_record (17 / 10)]\<rparr>"

definition fractional_session :: session where
  "fractional_session =
     \<lparr>df = Some fractional_frame, view_idx = 0, filter_unlabeled = True, staged = None\<rparr>"

definition edit_widgets :: widgets where
  "edit_widgets = idle_widgets\<lparr>cs_choice := ChoiceY, notes_new := ascii ''for 1.7''\<rparr>"

definition carried_edits :: staged_state where
  "carried_edits =
     edit_staged edit_widgets
       \<lparr>order = 1, flag = None, tags = map_of (map (\<lambda>c. (c, False)) TAG_COLS), notes = []\<rparr>"

definition carried_session :: session where
  "carried_session =
     \<lparr>df = Some fractional_frame, view_idx = 0, filter_unlabeled = False,
      staged = Some carried_edits\<rparr>"

text \<open>
  A Dataset whose order column repeats a key: a record labeled \<^verbatim>\<open>N\<close> and an unlabeled
  record, both with the key 1.
\<close>

definition duplicate_frame :: frame where
  "duplicate_frame =
     \<lparr>columns = ORDER_COL # MAIN_FLAG_COL # NOTES_COL # TAG_COLS,
      rows = [labeled_record 1, blank_record 1]\<rparr>"

definition duplicate_session :: session where
  "duplicate_session =
     \<lparr>df = Some duplicate_frame, view_idx = 0, filter_unlabeled = True, staged = None\<rparr>"

section \<open>Basic facts\<close>

lemmas col_defs = ORDER_COL_def MAIN_FLAG_COL_def NOTES_COL_def TAG_COLS_def SUPPLY_CHAIN_COLS_def
  FUNCTIONAL_COLS_def ascii_def

lemma flag_not_tag: "MAIN_FLAG_COL \<notin> set TAG_COLS"
  by (simp add: col_defs)

lemma notes_not_tag: "NOTES_COL \<notin> set TAG_COLS"
  by (simp add: col_defs)

lemma order_not_tag: "ORDER_COL \<notin> set TAG_COLS"
  by (simp add: col_defs)

lemma named_cols_distinct:
  "MAIN_FLAG_COL \<noteq> NOTES_COL" "MAIN_FLAG_COL \<noteq> ORDER_COL" "NOTES_COL \<noteq> ORDER_COL"
  by (simp_all add: col_defs)

lemma distinct_TAG_COLS: "distinct TAG_COLS"
  by (simp add: col_defs)

lemma first_index_Some:
  "first_index P xs = Some i \<Longrightarrow> i < length xs \<and> P (xs ! i) \<and> (\<forall>j<i. \<not> P (xs ! j))"
proof (induction xs arbitrary: i)
  case Nil
  then show ?case by simp
next
  case (Cons x xs)
  show ?case
  proof (cases "P x")
    case True
    with Cons.prems show ?thesis by simp
  next
    case False
    with Cons.prems obtain k where k: "first_index P xs = Some k" "i = Suc k"
      by auto
    from Cons.IH [OF k(1)] False k(2) show ?thesis
      by (auto simp: less_Suc_eq_0_disj)
  qed
qed

lemma first_index_None: "first_index P xs = None \<longleftrightarrow> (\<forall>x \<in> set xs. \<not> P x)"
  by (induction xs) auto

lemma length_filter_update:
  "i < length xs \<Longrightarrow>
   length (filter P (xs[i := y])) + (if P (xs ! i) then 1 else 0) =
   length (filter P xs) + (if P y then 1 else 0)"
proof (induction xs arbitrary: i)
  case Nil
  then show ?case by simp
next
  case (Cons x xs)
  then show ?case by (cases i) auto
qed

lemma fold_upd_apply:
  "fold (\<lambda>c r. r(c \<mapsto> g c)) cs r x = (if x \<in> set cs then Some (g x) else r x)"
  by (induction cs arbitrary: r) auto

lemma set_loc_present:
  "c \<in> set (columns f) \<Longrightarrow>
   set_loc pos c v f = f\<lparr>rows := (rows f)[pos := (rows f ! pos)(c \<mapsto> v)]\<rparr>"
  by (simp add: set_loc_def)

lemma fold_set_loc:
  "set cs \<subseteq> set (columns f) \<Longrightarrow> pos < length (rows f) \<Longrightarrow>
   fold (\<lambda>c. set_loc pos c (g c)) cs f =
   f\<lparr>rows := (rows f)[pos := fold (\<lambda>c r. r(c \<mapsto> g c)) cs (rows f ! pos)]\<rparr>"
proof (induction cs arbitrary: f)
  case Nil
  then show ?case by simp
next
  case (Cons c cs)
  let ?f1 = "f\<lparr>rows := (rows f)[pos := (rows f ! pos)(c \<mapsto> g c)]\<rparr>"
  have "fold (\<lambda>c. set_loc pos c (g c)) (c # cs) f = fold (\<lambda>c. set_loc pos c (g c)) cs ?f1"
    using Cons.prems by (simp add: set_loc_present)
  also have "\<dots> = ?f1\<lparr>rows := (rows ?f1)[pos := fold (\<lambda>c r. r(c \<mapsto> g c)) cs (rows ?f1 ! pos)]\<rparr>"
    using Cons.prems by (intro Cons.IH) auto
  finally show ?case using Cons.prems by (simp del: fun_upd_apply)
qed

lemma py_int_Num: "py_int ti (Some (Num x)) = Inr (py_trunc x)"
  by (simp add: py_int_def)

lemma py_int_notna: "py_int ti c = Inr n \<Longrightarrow> \<not> isna c"
  by (auto simp: py_int_def isna_def split: option.splits cell.splits)

lemma init_staged_state_Inr:
  "init_staged_state ti c s = Inr s' \<Longrightarrow>
   \<exists>n. py_int ti c = Inr n \<and>
     s' = s\<lparr>staged := Some \<lparr>order = n, flag = None,
                              tags = map_of (map (\<lambda>c. (c, False)) TAG_COLS), notes = []\<rparr>\<rparr>"
  by (auto simp: init_staged_state_def split: sum.splits)

lemma load_record_Inr:
  assumes "load_record ti r s = Inr s2"
  shows "\<exists>n b. py_int ti (r ORDER_COL) = Inr n \<and> staged s2 = Some b \<and> order b = n \<and>
           s2 = s\<lparr>staged := Some b\<rparr>"
proof (cases "staged s")
  case None
  with assms have "init_staged_state ti (r ORDER_COL) s = Inr s2"
    by (simp add: load_record_def)
  from init_staged_state_Inr [OF this] show ?thesis by auto
next
  case (Some b)
  with assms obtain n where n: "py_int ti (r ORDER_COL) = Inr n"
    by (auto simp: load_record_def split: sum.splits)
  show ?thesis
  proof (cases "order b = n")
    case True
    with assms Some n have "s2 = s" by (simp add: load_record_def)
    with Some True n show ?thesis by auto
  next
    case False
    with assms Some n have "init_staged_state ti (r ORDER_COL) s = Inr s2"
      by (simp add: load_record_def)
    from init_staged_state_Inr [OF this] show ?thesis by auto
  qed
qed

lemma load_record_total:
  "py_int ti (r ORDER_COL) = Inr n \<Longrightarrow> \<exists>s2. load_record ti r s = Inr s2"
  by (auto simp: load_record_def init_staged_state_def split: option.splits)

lemma view_idx_check_fields:
  "df (view_idx_check s v) = df s" "filter_unlabeled (view_idx_check s v) = filter_unlabeled s"
  "staged (view_idx_check s v) = staged s"
  by (simp_all add: view_idx_check_def)

text \<open>The pass, once it reaches the buttons.\<close>

lemma script_buttons:
  assumes "MAIN_FLAG_COL \<in> set (columns f)" "ORDER_COL \<in> set (columns f)"
    and "view f (filter_unlabeled s) \<noteq> []"
    and "real_pos f (displayed s f) = Some pos"
    and "load_record ti (displayed s f) (view_idx_check s (view f (filter_unlabeled s))) = Inr s2"
    and "staged s2 = Some b0"
  shows "script ti w s f =
     (let v = view f (filter_unlabeled s); idx = cursor s f;
          b = edit_staged w b0; s3 = s2\<lparr>staged := Some b\<rparr> in
      if prev_clicked w then (s3\<lparr>view_idx := prev_idx idx, staged := None\<rparr>, Rerun Prev)
      else if skip_clicked w then (s3\<lparr>view_idx := next_idx v idx, staged := None\<rparr>, Rerun Skip)
      else if save_clicked w
        then (s3\<lparr>df := Some (commit pos b f), view_idx := next_idx v idx, staged := None\<rparr>, Rerun Save)
      else (s3, Rendered (flag b = None) (remaining f > 0)
                  (\<not> (if remaining f > 0 then allow_checked w else True))))"
  using assms by (auto simp: script_def Let_def cursor_def displayed_def)

lemma script_cases:
  assumes "script ti w s f = (s', out)"
  shows "(MAIN_FLAG_COL \<notin> set (columns f) \<and> s' = s \<and> out = Crashed KeyError) \<or>
         (MAIN_FLAG_COL \<in> set (columns f) \<and> view f (filter_unlabeled s) = [] \<and> s' = s \<and>
            out = AllLabeled) \<or>
         (MAIN_FLAG_COL \<in> set (columns f) \<and> view f (filter_unlabeled s) \<noteq> [] \<and>
            s' = view_idx_check s (view f (filter_unlabeled s)) \<and> (\<exists>e. out = Crashed e)) \<or>
         (\<exists>pos s2 b0. MAIN_FLAG_COL \<in> set (columns f) \<and> ORDER_COL \<in> set (columns f) \<and>
            view f (filter_unlabeled s) \<noteq> [] \<and>
            real_pos f (displayed s f) = Some pos \<and>
            load_record ti (displayed s f) (view_idx_check s (view f (filter_unlabeled s))) = Inr s2 \<and>
            staged s2 = Some b0)"
  using assms unfolding script_def Let_def cursor_def displayed_def
  by (auto split: if_splits option.splits sum.splits dest: load_record_Inr)

lemma cursor_less: "view f (filter_unlabeled s) \<noteq> [] \<Longrightarrow> cursor s f < length (view f (filter_unlabeled s))"
  by (auto simp: cursor_def view_idx_check_def)

lemma view_subset: "set (view f b) \<subseteq> set (rows f)"
  by (auto simp: view_def)

lemma displayed_in_rows:
  "view f (filter_unlabeled s) \<noteq> [] \<Longrightarrow> displayed s f \<in> set (rows f)"
  using cursor_less [of f s] view_subset [of f "filter_unlabeled s"]
  by (auto simp: displayed_def dest: nth_mem)

lemma real_pos_Some:
  "real_pos f r = Some pos \<Longrightarrow>
   pos < length (rows f) \<and> (rows f ! pos) ORDER_COL = r ORDER_COL \<and> \<not> isna (r ORDER_COL)"
  by (auto simp: real_pos_def cell_eq_def dest: first_index_Some)

lemma real_pos_first:
  "real_pos f r = Some pos \<Longrightarrow> j < pos \<Longrightarrow> (rows f ! j) ORDER_COL \<noteq> r ORDER_COL"
  by (auto simp: real_pos_def cell_eq_def dest!: first_index_Some)

lemma real_pos_exists:
  assumes "r \<in> set (rows f)" "\<not> isna (r ORDER_COL)"
  shows "\<exists>pos. real_pos f r = Some pos"
proof -
  have "cell_eq (r ORDER_COL) (r ORDER_COL)"
    using assms(2) by (simp add: cell_eq_def)
  with assms(1) have "first_index (\<lambda>x. cell_eq (x ORDER_COL) (r ORDER_COL)) (rows f) \<noteq> None"
    by (auto simp: first_index_None)
  then show ?thesis by (auto simp: real_pos_def)
qed

lemma real_pos_distinct:
  assumes "real_pos f r = Some pos" "r \<in> set (rows f)"
    and "distinct (map (\<lambda>x. x ORDER_COL) (rows f))"
  shows "rows f ! pos = r"
proof -
  from assms(2) obtain p where p: "p < length (rows f)" "rows f ! p = r"
    by (auto simp: in_set_conv_nth)
  from real_pos_Some [OF assms(1)]
  have pos: "pos < length (rows f)" "(rows f ! pos) ORDER_COL = r ORDER_COL" by auto
  have "map (\<lambda>x. x ORDER_COL) (rows f) ! pos = map (\<lambda>x. x ORDER_COL) (rows f) ! p"
    using p pos by simp
  moreover have "pos < length (map (\<lambda>x. x ORDER_COL) (rows f))"
    "p < length (map (\<lambda>x. x ORDER_COL) (rows f))"
    using p(1) pos(1) by simp_all
  ultimately have "pos = p"
    using nth_eq_iff_index_eq [OF assms(3)] by blast
  with p(2) show ?thesis by simp
qed

lemma script_reaches:
  assumes "view f (filter_unlabeled s) \<noteq> []" "py_int ti (displayed s f ORDER_COL) = Inr n"
  shows "\<exists>pos s2 b0. real_pos f (displayed s f) = Some pos \<and>
           load_record ti (displayed s f) (view_idx_check s (view f (filter_unlabeled s))) = Inr s2 \<and>
           staged s2 = Some b0"
proof -
  from real_pos_exists [OF displayed_in_rows [OF assms(1)] py_int_notna [OF assms(2)]]
  obtain pos where pos: "real_pos f (displayed s f) = Some pos" by blast
  have "\<exists>s2. load_record ti (displayed s f) (view_idx_check s (view f (filter_unlabeled s))) = Inr s2"
    using assms(2) by (rule load_record_total)
  then obtain s2 where s2: "load_record ti (displayed s f) (view_idx_check s (view f (filter_unlabeled s))) = Inr s2"
    by blast
  from load_record_Inr [OF s2] obtain b0 where "staged s2 = Some b0" by blast
  with pos s2 show ?thesis by blast
qed

lemma edit_staged_tags:
  "c \<in> set TAG_COLS \<Longrightarrow> tags (edit_staged w b) c = Some (tag_checked w c)"
  by (auto simp: edit_staged_def TAG_COLS_def fold_upd_apply)

lemma edit_staged_flag:
  "flag (edit_staged w b) = None \<longleftrightarrow> cs_choice w = ChoiceSelect"
  "flag (edit_staged w b) = Some True \<longleftrightarrow> cs_choice w = ChoiceY"
  by (auto simp: edit_staged_def split: choice.splits)

lemma edit_staged_notes: "notes (edit_staged w b) = notes_new w"
  by (simp add: edit_staged_def)

lemma commit_rows:
  assumes "has_columns f" "pos < length (rows f)"
  shows "commit pos b f = f\<lparr>rows := (rows f)[pos := commit_row b (rows f ! pos)]\<rparr>"
proof -
  let ?g = "\<lambda>c. Num (if (case tags b c of Some t \<Rightarrow> t | None \<Rightarrow> False) then 1 else 0)"
  let ?f1 = "f\<lparr>rows := (rows f)[pos := (rows f ! pos)(MAIN_FLAG_COL \<mapsto> Str (if flag b = Some True then ascii ''Y'' else ascii ''N''))]\<rparr>"
  have cols: "MAIN_FLAG_COL \<in> set (columns f)" "NOTES_COL \<in> set (columns f)"
    "set TAG_COLS \<subseteq> set (columns f)"
    using assms(1) by (auto simp: has_columns_def)
  have 1: "set_loc pos MAIN_FLAG_COL (Str (if flag b = Some True then ascii ''Y'' else ascii ''N'')) f = ?f1"
    using cols(1) by (rule set_loc_present)
  have 2: "fold (\<lambda>c. set_loc pos c (?g c)) TAG_COLS ?f1 =
      ?f1\<lparr>rows := (rows ?f1)[pos := fold (\<lambda>c r. r(c \<mapsto> ?g c)) TAG_COLS (rows ?f1 ! pos)]\<rparr>"
    using cols(3) assms(2) by (intro fold_set_loc) auto
  show ?thesis
    unfolding commit_def Let_def 1 2
    using cols(2) assms(2) by (simp add: set_loc_present commit_row_def del: fun_upd_apply)
qed

lemma commit_row_flag:
  "commit_row b r MAIN_FLAG_COL = Some (Str (if flag b = Some True then ascii ''Y'' else ascii ''N''))"
  using flag_not_tag named_cols_distinct by (simp add: commit_row_def fold_upd_apply)

lemma commit_row_tag:
  "c \<in> set TAG_COLS \<Longrightarrow>
   commit_row b r c = Some (Num (if (case tags b c of Some t \<Rightarrow> t | None \<Rightarrow> False) then 1 else 0))"
  using notes_not_tag by (auto simp: commit_row_def fold_upd_apply)

lemma commit_row_notes: "commit_row b r NOTES_COL = Some (Str (notes b))"
  by (simp add: commit_row_def)

lemma commit_row_other:
  "c \<noteq> MAIN_FLAG_COL \<Longrightarrow> c \<notin> set TAG_COLS \<Longrightarrow> c \<noteq> NOTES_COL \<Longrightarrow> commit_row b r c = r c"
  by (simp add: commit_row_def fold_upd_apply)

lemma run_loaded:
  "df s = Some f \<Longrightarrow> run ti w s = (fst (script ti w s f), None, snd (script ti w s f))"
  by (simp add: run_def load_branch_def split_beta)

lemma load_branch_loaded: "df s = Some f \<Longrightarrow> load_branch w s = (s, None)"
  by (simp add: load_branch_def)

lemma edit_staged_upload: "edit_staged (w\<lparr>uploaded := u\<rparr>) b = edit_staged w b"
  by (simp add: edit_staged_def)

lemma script_upload_irrelevant: "script ti (w\<lparr>uploaded := u\<rparr>) s f = script ti w s f"
  by (simp add: script_def edit_staged_upload Let_def cong: option.case_cong sum.case_cong if_cong)

lemma next_idx_less: "v \<noteq> [] \<Longrightarrow> next_idx v i < length v"
  by (cases v) (auto simp: next_idx_def)

lemma prev_idx_le: "prev_idx i \<le> i"
  by (simp add: prev_idx_def)

text \<open>What a pass does to the session, by the way it ends.\<close>

lemma script_effect:
  assumes "script ti w s f = (s', out)"
  shows "filter_unlabeled s' = filter_unlabeled s \<and>
    (case out of
       NoData \<Rightarrow> False
     | AllLabeled \<Rightarrow> s' = s \<and> view f (filter_unlabeled s) = [] \<and> MAIN_FLAG_COL \<in> set (columns f)
     | Crashed e \<Rightarrow> df s' = df s \<and> staged s' = staged s \<and>
         (s' = s \<or> s' = view_idx_check s (view f (filter_unlabeled s)))
     | Rerun b \<Rightarrow> view f (filter_unlabeled s) \<noteq> [] \<and> staged s' = None \<and>
         (case b of
            Prev \<Rightarrow> df s' = df s \<and> view_idx s' = prev_idx (cursor s f) \<and> prev_clicked w
          | Skip \<Rightarrow> df s' = df s \<and> view_idx s' = next_idx (view f (filter_unlabeled s)) (cursor s f) \<and>
              skip_clicked w \<and> \<not> prev_clicked w
          | Save \<Rightarrow> view_idx s' = next_idx (view f (filter_unlabeled s)) (cursor s f) \<and>
              save_clicked w \<and> \<not> skip_clicked w \<and> \<not> prev_clicked w \<and>
              (\<exists>pos s2 b0. real_pos f (displayed s f) = Some pos \<and>
                 load_record ti (displayed s f) (view_idx_check s (view f (filter_unlabeled s))) = Inr s2 \<and>
                 staged s2 = Some b0 \<and>
                 df s' = Some (commit pos (edit_staged w b0) f)))
     | Rendered sd wn dd \<Rightarrow> view f (filter_unlabeled s) \<noteq> [] \<and> df s' = df s \<and>
         view_idx s' = cursor s f \<and> \<not> save_clicked w \<and> \<not> skip_clicked w \<and>
         \<not> prev_clicked w \<and> sd = (cs_choice w = ChoiceSelect) \<and> wn = (remaining f > 0) \<and>
         dd = (remaining f > 0 \<and> \<not> allow_checked w) \<and>
         (\<exists>s2 b0.
            load_record ti (displayed s f) (view_idx_check s (view f (filter_unlabeled s))) = Inr s2 \<and>
            staged s2 = Some b0 \<and> staged s' = Some (edit_staged w b0)))"
proof -
  from script_cases [OF assms]
  consider (a) "MAIN_FLAG_COL \<notin> set (columns f)" "s' = s" "out = Crashed KeyError"
    | (b) "MAIN_FLAG_COL \<in> set (columns f)" "view f (filter_unlabeled s) = []" "s' = s" "out = AllLabeled"
    | (c) e where "s' = view_idx_check s (view f (filter_unlabeled s))" "out = Crashed e"
    | (d) pos s2 b0 where "MAIN_FLAG_COL \<in> set (columns f)" "ORDER_COL \<in> set (columns f)"
        "view f (filter_unlabeled s) \<noteq> []" "real_pos f (displayed s f) = Some pos"
        "load_record ti (displayed s f) (view_idx_check s (view f (filter_unlabeled s))) = Inr s2"
        "staged s2 = Some b0"
    by blast
  then show ?thesis
  proof cases
    case a
    then show ?thesis by simp
  next
    case b
    then show ?thesis by simp
  next
    case c
    then show ?thesis by (simp add: view_idx_check_fields)
  next
    case d
    from load_record_Inr [OF d(5)] obtain b1 where
      s2: "s2 = (view_idx_check s (view f (filter_unlabeled s)))\<lparr>staged := Some b1\<rparr>"
      by blast
    have s2f: "df s2 = df s" "filter_unlabeled s2 = filter_unlabeled s" "view_idx s2 = cursor s f"
      by (simp_all add: s2 view_idx_check_fields cursor_def)
    from script_buttons [OF d(1,2,3,4,5,6), of w] assms
    show ?thesis
      using d(3,4,5,6) s2f
      by (auto simp: Let_def edit_staged_flag split: if_splits)
  qed
qed

lemma script_outcome:
  assumes "MAIN_FLAG_COL \<in> set (columns f)" "ORDER_COL \<in> set (columns f)"
    and "view f (filter_unlabeled s) \<noteq> []" "py_int ti (displayed s f ORDER_COL) = Inr n"
  shows "snd (script ti w s f) =
     (if prev_clicked w then Rerun Prev
      else if skip_clicked w then Rerun Skip
      else if save_clicked w then Rerun Save
      else Rendered (cs_choice w = ChoiceSelect) (remaining f > 0)
             (remaining f > 0 \<and> \<not> allow_checked w))"
proof -
  from script_reaches [OF assms(3,4)] obtain pos s2 b0 where
    r: "real_pos f (displayed s f) = Some pos"
       "load_record ti (displayed s f) (view_idx_check s (view f (filter_unlabeled s))) = Inr s2"
       "staged s2 = Some b0"
    by blast
  show ?thesis
    unfolding script_buttons [OF assms(1,2,3) r, of w]
    by (simp add: Let_def edit_staged_flag)
qed

lemma map_of_const: "map_of (map (\<lambda>c. (c, v)) cs) c = (if c \<in> set cs then Some v else None)"
  by (induction cs) auto

lemma blank_record_cells:
  "blank_record n ORDER_COL = Some (Num n)"
  "blank_record n MAIN_FLAG_COL = Some NA"
  "blank_record n NOTES_COL = Some NA"
  "c \<in> set TAG_COLS \<Longrightarrow> blank_record n c = Some (Num 0)"
  using named_cols_distinct flag_not_tag notes_not_tag order_not_tag
  by (auto simp: blank_record_def map_of_const)

lemma sum_list_zero: "(\<And>x. x \<in> set xs \<Longrightarrow> g x = (0::real)) \<Longrightarrow> sum_list (map g xs) = 0"
  by (induction xs) auto

lemma tag_sum_zero: "(\<And>c. c \<in> set TAG_COLS \<Longrightarrow> num (r c) = 0) \<Longrightarrow> tag_sum f r = 0"
  unfolding tag_sum_def by (rule sum_list_zero) auto

lemma unlabeled_blank: "unlabeled_mask f (blank_record n)"
  by (simp add: unlabeled_mask_def tag_sum_zero blank_record_cells isna_def)

lemma labeled_record_cells:
  "labeled_record n ORDER_COL = Some (Num n)"
  "labeled_record n MAIN_FLAG_COL = Some (Str (ascii ''N''))"
  using named_cols_distinct by (simp_all add: labeled_record_def blank_record_cells)

lemma labeled_not_unlabeled: "\<not> unlabeled_mask f (labeled_record n)"
  by (simp add: unlabeled_mask_def labeled_record_cells isna_def)

lemma example_frame_cols: "has_columns example_frame"
  by (auto simp: has_columns_def example_frame_def)

lemma example_view: "view example_frame b = [blank_record 1, blank_record 2, blank_record 3]"
  by (simp add: view_def example_frame_def unlabeled_blank)

lemma example_remaining: "remaining example_frame = 3"
  by (simp add: remaining_def example_frame_def unlabeled_blank)

lemma example_cursor: "cursor example_session example_frame = 0"
  by (simp add: cursor_def example_session_def example_view view_idx_check_def)

lemma example_displayed: "displayed example_session example_frame = blank_record 1"
  by (simp add: displayed_def example_cursor example_view)

subsection \<open>The loader\<close>

lemma fold_drop_columns:
  "columns (fold (\<lambda>c d. if P c then drop_column c d else d) cs d) =
     filter (\<lambda>x. \<not> (P x \<and> x \<in> set cs)) (columns d)"
  "rows (fold (\<lambda>c d. if P c then drop_column c d else d) cs d) =
     map (\<lambda>r x. if P x \<and> x \<in> set cs then None else r x) (rows d)"
proof (induction cs arbitrary: d)
  case Nil
  {
    case 1
    show ?case by simp
  next
    case 2
    show ?case by simp
  }
next
  case (Cons c cs)
  {
    case 1
    show ?case
      by (auto simp: Cons.IH drop_column_def intro: filter_cong)
  next
    case 2
    show ?case
      by (auto simp: Cons.IH drop_column_def fun_eq_iff)
  }
qed

lemma assign_range_nth:
  "i < length (rows d) \<Longrightarrow>
   rows (assign_range c d) ! i = (rows d ! i)(c \<mapsto> Num (real i + 1))"
  by (simp add: assign_range_def nth_enumerate_eq)

lemma assign_range_length: "length (rows (assign_range c d)) = length (rows d)"
  by (simp add: assign_range_def)

lemma sort_rank_Num_le:
  "sort_rank (Some (Num a)) \<le> sort_rank (Some (Num b)) \<longleftrightarrow> a \<le> b"
  by auto

lemma sort_values_sorted:
  "sort_values c d = Inr d' \<Longrightarrow> sorted (map (\<lambda>r. sort_rank (r c)) (rows d'))"
  by (auto simp: sort_values_def split: if_splits)

lemma ensure_order_absent:
  assumes "ORDER_COL \<notin> set (columns d)"
  shows "\<exists>d'. ensure_order d = Inr d' \<and>
     columns d' = filter (\<lambda>c. \<not> is_unnamed c) (columns d) @ [ORDER_COL] \<and>
     length (rows d') = length (rows d) \<and>
     (\<forall>i < length (rows d). (rows d' ! i) ORDER_COL = Some (Num (real i + 1)) \<and>
        (\<forall>c. c \<noteq> ORDER_COL \<and> \<not> (is_unnamed c \<and> c \<in> set (columns d)) \<longrightarrow>
             (rows d' ! i) c = (rows d ! i) c))"
proof -
  let ?d1 = "fold (\<lambda>c d. if is_unnamed c then drop_column c d else d) (columns d) d"
  let ?d2 = "assign_range ORDER_COL ?d1"
  have c1: "columns ?d1 = filter (\<lambda>c. \<not> is_unnamed c) (columns d)"
    by (auto simp: fold_drop_columns intro: filter_cong)
  have r1: "rows ?d1 = map (\<lambda>r x. if is_unnamed x \<and> x \<in> set (columns d) then None else r x) (rows d)"
    by (simp add: fold_drop_columns)
  have no: "ORDER_COL \<notin> set (columns ?d1)"
    using assms by (simp add: c1)
  have c2: "columns ?d2 = filter (\<lambda>c. \<not> is_unnamed c) (columns d) @ [ORDER_COL]"
    by (simp add: assign_range_def c1)
  have l2: "length (rows ?d2) = length (rows d)"
    by (simp add: assign_range_length r1)
  have n2: "rows ?d2 ! i = (rows ?d1 ! i)(ORDER_COL \<mapsto> Num (real i + 1))" if "i < length (rows d)" for i
    using that by (intro assign_range_nth) (simp add: r1)
  have key: "(rows ?d2 ! i) ORDER_COL = Some (Num (real i + 1))" if "i < length (rows d)" for i
    using n2 [OF that] by simp
  have other: "(rows ?d2 ! i) c = (rows d ! i) c"
    if "i < length (rows d)" "c \<noteq> ORDER_COL" "\<not> (is_unnamed c \<and> c \<in> set (columns d))" for i c
    using n2 [OF that(1)] that by (auto simp: r1)
  have keys: "map (\<lambda>r. sort_rank (r ORDER_COL)) (rows ?d2) =
      map (\<lambda>i. (0, real i + 1, [])) [0..<length (rows d)]"
    by (rule nth_equalityI) (simp_all add: l2 key)
  have srt: "sorted (map (\<lambda>r. sort_rank (r ORDER_COL)) (rows ?d2))"
    unfolding keys by (auto simp: sorted_iff_nth_mono)
  have nostr: "\<not> (\<exists>r \<in> set (rows ?d2). is_Str (r ORDER_COL))"
  proof
    assume "\<exists>r \<in> set (rows ?d2). is_Str (r ORDER_COL)"
    then obtain i where "i < length (rows ?d2)" "is_Str ((rows ?d2 ! i) ORDER_COL)"
      by (auto simp: in_set_conv_nth)
    with key [of i] l2 show False by simp
  qed
  have "sort_values ORDER_COL ?d2 = Inr ?d2"
    using nostr c2 by (simp add: sort_values_def sort_key_id_if_sorted [OF srt])
  then have "ensure_order d = Inr ?d2"
    using no by (simp add: ensure_order_def Let_def)
  with c2 l2 key other show ?thesis by blast
qed

lemma map_update_same:
  assumes "g y = g (xs ! pos)"
  shows "map g (xs[pos := y]) = map g xs"
proof (cases "pos < length xs")
  case True
  then show ?thesis
    using assms by (simp add: map_update list_update_same_conv)
next
  case False
  then have "xs[pos := y] = xs"
    by (simp add: list_update_beyond)
  then show ?thesis by simp
qed

lemma set_loc_order:
  assumes "c \<noteq> ORDER_COL"
  shows "map (\<lambda>r. r ORDER_COL) (rows (set_loc pos c v f)) = map (\<lambda>r. r ORDER_COL) (rows f)"
proof -
  let ?g = "if c \<notin> set (columns f) then add_column c NA f else f"
  have g: "map (\<lambda>r. r ORDER_COL) (rows ?g) = map (\<lambda>r. r ORDER_COL) (rows f)"
    using assms by (simp add: add_column_def)
  have "map (\<lambda>r. r ORDER_COL) ((rows ?g)[pos := (rows ?g ! pos)(c \<mapsto> v)]) =
        map (\<lambda>r. r ORDER_COL) (rows ?g)"
    by (rule map_update_same) (use assms in simp)
  with g show ?thesis
    by (simp add: set_loc_def Let_def)
qed

lemma fold_set_loc_order:
  "ORDER_COL \<notin> set cs \<Longrightarrow>
   map (\<lambda>r. r ORDER_COL) (rows (fold (\<lambda>c. set_loc pos c (g c)) cs f)) =
   map (\<lambda>r. r ORDER_COL) (rows f)"
proof (induction cs arbitrary: f)
  case Nil
  then show ?case by simp
next
  case (Cons c cs)
  then have "c \<noteq> ORDER_COL" "ORDER_COL \<notin> set cs" by auto
  with Cons.IH [of "set_loc pos c (g c) f"] set_loc_order [of c pos "g c" f]
  show ?case by simp
qed

lemma commit_order:
  "map (\<lambda>r. r ORDER_COL) (rows (commit pos b f)) = map (\<lambda>r. r ORDER_COL) (rows f)"
  using named_cols_distinct order_not_tag
  by (simp add: commit_def Let_def set_loc_order fold_set_loc_order)

lemma script_order:
  assumes "script ti w s f = (s', out)" "df s = Some f"
  shows "\<exists>f'. df s' = Some f' \<and>
           map (\<lambda>r. r ORDER_COL) (rows f') = map (\<lambda>r. r ORDER_COL) (rows f)"
  using script_effect [OF assms(1)] assms(2)
  by (cases out) (auto simp: commit_order split: button.splits)

lemma ensure_column_single:
  "set (columns (ensure_column v c f)) = insert c (set (columns f))"
  "length (rows (ensure_column v c f)) = length (rows f)"
  "i < length (rows f) \<Longrightarrow> x \<in> set (columns f) \<Longrightarrow>
     (rows (ensure_column v c f) ! i) x = (rows f ! i) x"
  by (auto simp: ensure_column_def add_column_def)

lemma fold_ensure_column:
  "set (columns (fold (ensure_column v) cs f)) = set cs \<union> set (columns f)"
  "length (rows (fold (ensure_column v) cs f)) = length (rows f)"
  "i < length (rows f) \<Longrightarrow> c \<in> set (columns f) \<Longrightarrow>
     (rows (fold (ensure_column v) cs f) ! i) c = (rows f ! i) c"
proof (induction cs arbitrary: f)
  case Nil
  {
    case 1
    show ?case by simp
  next
    case 2
    show ?case by simp
  next
    case 3
    show ?case by simp
  }
next
  case (Cons x cs)
  {
    case 1
    show ?case by (auto simp: Cons.IH(1) ensure_column_single)
  next
    case 2
    show ?case by (simp add: Cons.IH(2) ensure_column_single)
  next
    case 3
    have "(rows (fold (ensure_column v) cs (ensure_column v x f)) ! i) c =
          (rows (ensure_column v x f) ! i) c"
      using 3 by (intro Cons.IH(3)) (simp_all add: ensure_column_single)
    also have "\<dots> = (rows f ! i) c"
      using 3 by (simp add: ensure_column_single)
    finally show ?case by simp
  }
qed

lemma sort_values_columns: "sort_values c d = Inr d' \<Longrightarrow> columns d' = columns d"
  by (auto simp: sort_values_def split: if_splits)

lemma ensure_order_columns:
  assumes "ensure_order d = Inr d'"
  shows "set (columns d') = {c \<in> set (columns d). \<not> is_unnamed c} \<union> {ORDER_COL}"
proof -
  let ?d1 = "fold (\<lambda>c d. if is_unnamed c then drop_column c d else d) (columns d) d"
  let ?d2 = "if ORDER_COL \<notin> set (columns ?d1) then assign_range ORDER_COL ?d1 else ?d1"
  have c1: "set (columns ?d1) = {c \<in> set (columns d). \<not> is_unnamed c}"
    by (auto simp: fold_drop_columns)
  have "set (columns ?d2) = {c \<in> set (columns d). \<not> is_unnamed c} \<union> {ORDER_COL}"
    unfolding c1 [symmetric] by (auto simp: assign_range_def)
  moreover have "sort_values ORDER_COL ?d2 = Inr d'"
    using assms by (simp add: ensure_order_def Let_def)
  ultimately show ?thesis
    by (simp add: sort_values_columns)
qed

lemma required_not_unnamed:
  "\<not> is_unnamed MAIN_FLAG_COL" "\<not> is_unnamed NOTES_COL" "\<not> is_unnamed ORDER_COL"
  by (simp_all add: is_unnamed_def startswith_def lower_def lower_cp_def strip_def isspace_def
      col_defs)

lemma tags_not_unnamed: "c \<in> set TAG_COLS \<Longrightarrow> \<not> is_unnamed c"
  by (auto simp: is_unnamed_def startswith_def lower_def lower_cp_def strip_def isspace_def
      col_defs)

text \<open>The Dataset the load block stores has every column the script writes.\<close>

lemma prepare_has_columns:
  assumes "prepare d0 = Inr d"
  shows "has_columns d"
proof -
  let ?d4 = "ensure_column NA NOTES_COL (ensure_column NA MAIN_FLAG_COL
               (fold (ensure_column (Num 0)) TAG_COLS (fold (ensure_column NA) needed d0)))"
  have e: "ensure_order ?d4 = Inr d"
    using assms by (simp add: prepare_def Let_def)
  have "set (MAIN_FLAG_COL # NOTES_COL # TAG_COLS) \<subseteq> set (columns ?d4)"
    by (auto simp: ensure_column_single fold_ensure_column)
  then show ?thesis
    unfolding has_columns_def ensure_order_columns [OF e]
    using required_not_unnamed tags_not_unnamed by auto
qed

section \<open>Properties of the helpers\<close>

lemma strip_Nil: "strip [] = []"
  by (simp add: strip_def)

lemma has_scheme_https_append: "has_scheme (ascii ''https://'' @ u)"
  by (simp add: has_scheme_def startswith_def lower_def lower_cp_def ascii_def)

text \<open>
  C9, as stated, fails: an already-schemed URL with a trailing blank is not returned
  untouched, because the function trims its argument first; and an input of one blank
  does not give the empty string but the bare prefix.
\<close>

theorem normalize_url_untouched_counterexample:
  "has_scheme (ascii ''https://x.com '') \<and> ascii ''https://x.com '' \<noteq> [] \<and>
   ascii ''https://x.com '' \<noteq> PLACEHOLDER \<and>
   normalize_url (ascii ''https://x.com '') \<noteq> ascii ''https://x.com '' \<and>
   normalize_url (ascii ''https://x.com '') = ascii ''https://x.com'' \<and>
   normalize_url (ascii '' '') = ascii ''https://''"
  by (simp add: normalize_url_def has_scheme_def startswith_def lower_def lower_cp_def
      ascii_def PLACEHOLDER_def strip_def isspace_def)

text \<open>
  C9, amended: \<^verbatim>\<open>normalize_url\<close> returns the empty string for the empty string and
  for the placeholder; every other input is trimmed first, and the trimmed string gets
  the prefix \<^verbatim>\<open>https://\<close> when it lacks a scheme (compared case-insensitively) and is
  returned as it is when it has one. So the result always carries a scheme, an input
  without surrounding whitespace is prefixed or returned untouched, and the three
  examples of C9 hold.
\<close>

theorem normalize_url_spec:
  "(url = [] \<or> url = PLACEHOLDER \<longrightarrow> normalize_url url = []) \<and>
   (url \<noteq> [] \<and> url \<noteq> PLACEHOLDER \<longrightarrow>
      has_scheme (normalize_url url) \<and>
      (has_scheme (strip url) \<longrightarrow> normalize_url url = strip url) \<and>
      (\<not> has_scheme (strip url) \<longrightarrow> normalize_url url = ascii ''https://'' @ strip url) \<and>
      (strip url = url \<and> has_scheme url \<longrightarrow> normalize_url url = url) \<and>
      (strip url = url \<and> \<not> has_scheme url \<longrightarrow> normalize_url url = ascii ''https://'' @ url)) \<and>
   normalize_url (ascii ''example.com'') = ascii ''https://example.com'' \<and>
   normalize_url (ascii ''https://x.com'') = ascii ''https://x.com'' \<and>
   normalize_url [] = []"
proof -
  have blank: "url = [] \<or> url = PLACEHOLDER \<longrightarrow> normalize_url url = []"
    by (simp add: normalize_url_def)
  have other: "url \<noteq> [] \<and> url \<noteq> PLACEHOLDER \<longrightarrow>
      has_scheme (normalize_url url) \<and>
      (has_scheme (strip url) \<longrightarrow> normalize_url url = strip url) \<and>
      (\<not> has_scheme (strip url) \<longrightarrow> normalize_url url = ascii ''https://'' @ strip url) \<and>
      (strip url = url \<and> has_scheme url \<longrightarrow> normalize_url url = url) \<and>
      (strip url = url \<and> \<not> has_scheme url \<longrightarrow> normalize_url url = ascii ''https://'' @ url)"
  proof (cases "has_scheme (strip url)")
    case True
    then show ?thesis
      by (auto simp: normalize_url_def Let_def has_scheme_def)
  next
    case False
    then have "url \<noteq> [] \<and> url \<noteq> PLACEHOLDER \<longrightarrow>
        normalize_url url = ascii ''https://'' @ strip url"
      by (auto simp: normalize_url_def Let_def has_scheme_def)
    with False show ?thesis
      using has_scheme_https_append [of "strip url"] by auto
  qed
  have ex1: "normalize_url (ascii ''example.com'') = ascii ''https://example.com''"
    by (simp add: normalize_url_def startswith_def lower_def lower_cp_def
        ascii_def PLACEHOLDER_def strip_def isspace_def)
  have ex2: "normalize_url (ascii ''https://x.com'') = ascii ''https://x.com''"
    by (simp add: normalize_url_def startswith_def lower_def lower_cp_def
        ascii_def PLACEHOLDER_def strip_def isspace_def)
  have ex3: "normalize_url [] = []"
    by (simp add: normalize_url_def)
  from blank other ex1 ex2 ex3 show ?thesis by blast
qed

theorem normalize_url_spec_witness:
  "ascii ''HTTP://Example.com'' \<noteq> [] \<and> ascii ''HTTP://Example.com'' \<noteq> PLACEHOLDER \<and>
   strip (ascii ''HTTP://Example.com'') = ascii ''HTTP://Example.com'' \<and>
   has_scheme (ascii ''HTTP://Example.com'') \<and>
   normalize_url (ascii ''HTTP://Example.com'') = ascii ''HTTP://Example.com'' \<and>
   normalize_url PLACEHOLDER = [] \<and>
   \<not> has_scheme (strip (ascii '' example.com'')) \<and>
   normalize_url (ascii '' example.com'') = ascii ''https://example.com''"
proof -
  have a: "ascii ''HTTP://Example.com'' \<noteq> [] \<and> ascii ''HTTP://Example.com'' \<noteq> PLACEHOLDER"
    by (simp add: ascii_def PLACEHOLDER_def)
  have b: "strip (ascii ''HTTP://Example.com'') = ascii ''HTTP://Example.com''"
    by (simp add: strip_def ascii_def isspace_def)
  have c: "has_scheme (ascii ''HTTP://Example.com'')"
    by (simp add: has_scheme_def startswith_def lower_def lower_cp_def ascii_def)
  have d: "ascii '' example.com'' \<noteq> [] \<and> ascii '' example.com'' \<noteq> PLACEHOLDER"
    by (simp add: ascii_def PLACEHOLDER_def)
  have e: "strip (ascii '' example.com'') = ascii ''example.com''"
    by (simp add: strip_def ascii_def isspace_def)
  have f: "\<not> has_scheme (ascii ''example.com'')"
    by (simp add: has_scheme_def startswith_def lower_def lower_cp_def ascii_def)
  have g: "ascii ''https://'' @ ascii ''example.com'' = ascii ''https://example.com''"
    by (simp add: ascii_def)
  show ?thesis
    using a b c d e f g
      normalize_url_spec [of "ascii ''HTTP://Example.com''"]
      normalize_url_spec [of PLACEHOLDER]
      normalize_url_spec [of "ascii '' example.com''"]
    by simp
qed

section \<open>The staging buffer and the cursor\<close>

text \<open>
  What loading a record slot does, by the integer \<^verbatim>\<open>int\<close> makes of the displayed record's
  order key: the staging buffer is reinitialised to the blank buffer bound to that
  integer when it is absent or bound to another integer, and the session is left as it
  is otherwise.
\<close>

lemma load_record_cases:
  assumes "py_int ti (r ORDER_COL) = Inr n"
  shows "(staged s = None \<or> (\<exists>b. staged s = Some b \<and> order b \<noteq> n)) \<longrightarrow>
      load_record ti r s =
        Inr (s\<lparr>staged := Some \<lparr>order = n, flag = None,
                                 tags = map_of (map (\<lambda>c. (c, False)) TAG_COLS),
                                 notes = []\<rparr>\<rparr>)"
    and "\<forall>b. staged s = Some b \<and> order b = n \<longrightarrow> load_record ti r s = Inr s"
  using assms by (auto simp: load_record_def init_staged_state_def)

lemma fractional_view:
  "view fractional_frame True = [blank_record (17 / 10)]"
  "view fractional_frame False = [labeled_record (12 / 10), blank_record (17 / 10)]"
  by (simp_all add: view_def fractional_frame_def unlabeled_blank labeled_not_unlabeled)

lemma fractional_displayed:
  "displayed fractional_session fractional_frame = blank_record (17 / 10)"
  "displayed carried_session fractional_frame = labeled_record (12 / 10)"
  by (simp_all add: displayed_def cursor_def view_idx_check_def fractional_view
      fractional_session_def carried_session_def)

text \<open>
  C6 fails on the code for order keys that are not whole numbers. The Dataset below
  holds a labeled record with the key 1.2 and an unlabeled one with the key 1.7. The
  view of unlabeled records displays the record 1.7; loading it binds the buffer to
  \<^verbatim>\<open>int(1.7) = 1\<close>, and the pass writes the operator's choice \<^verbatim>\<open>Y\<close> and note into the
  buffer. With the filter switched off the same cursor displays the record 1.2, whose
  order key differs from the key of the record the buffer was bound for; as
  \<^verbatim>\<open>int(1.2) = 1\<close> too, loading does not reinitialise the buffer, which keeps the edits
  made for the other record.
\<close>

theorem staged_edits_carried_over:
  "displayed fractional_session fractional_frame ORDER_COL = Some (Num (17 / 10)) \<and>
   snd (snd (run no_text_int edit_widgets fractional_session)) = Rendered False True True \<and>
   (fst (run no_text_int edit_widgets fractional_session))\<lparr>filter_unlabeled := False\<rparr> =
     carried_session \<and>
   staged carried_session = Some carried_edits \<and>
   order carried_edits = 1 \<and> flag carried_edits = Some True \<and>
   notes carried_edits = ascii ''for 1.7'' \<and>
   displayed carried_session fractional_frame ORDER_COL = Some (Num (12 / 10)) \<and>
   load_record no_text_int (displayed carried_session fractional_frame) carried_session =
     Inr carried_session"
proof -
  let ?v = "view fractional_frame (filter_unlabeled fractional_session)"
  have d: "df fractional_session = Some fractional_frame"
    and fl: "filter_unlabeled fractional_session" and st: "staged fractional_session = None"
    and vi: "view_idx fractional_session = 0"
    by (simp_all add: fractional_session_def)
  have cols: "MAIN_FLAG_COL \<in> set (columns fractional_frame)"
    "ORDER_COL \<in> set (columns fractional_frame)"
    by (simp_all add: fractional_frame_def)
  have v: "?v \<noteq> []"
    by (simp add: fl fractional_view)
  have k17: "displayed fractional_session fractional_frame ORDER_COL = Some (Num (17 / 10))"
    by (simp add: fractional_displayed blank_record_cells)
  have k12: "displayed carried_session fractional_frame ORDER_COL = Some (Num (12 / 10))"
    by (simp add: fractional_displayed labeled_record_cells)
  have i17: "py_int no_text_int (displayed fractional_session fractional_frame ORDER_COL) = Inr 1"
    by (simp add: k17 py_int_Num py_trunc_def)
  have i12: "py_int no_text_int (displayed carried_session fractional_frame ORDER_COL) = Inr 1"
    by (simp add: k12 py_int_Num py_trunc_def)
  have w: "\<not> prev_clicked edit_widgets" "\<not> skip_clicked edit_widgets"
    "\<not> save_clicked edit_widgets" "\<not> allow_checked edit_widgets"
    "cs_choice edit_widgets = ChoiceY" "notes_new edit_widgets = ascii ''for 1.7''"
    by (simp_all add: edit_widgets_def idle_widgets_def)
  have rem: "remaining fractional_frame = 1"
    by (simp add: remaining_def fractional_frame_def unlabeled_blank labeled_not_unlabeled)
  have chk: "view_idx_check fractional_session ?v = fractional_session"
    using v by (simp add: view_idx_check_def vi)
  have cur: "cursor fractional_session fractional_frame = 0"
    by (simp add: cursor_def chk vi)
  have out: "snd (script no_text_int edit_widgets fractional_session fractional_frame) =
      Rendered False True True"
    using script_outcome [OF cols v i17, where w = edit_widgets] by (simp add: w rem)
  obtain s' where so: "script no_text_int edit_widgets fractional_session fractional_frame =
      (s', Rendered False True True)"
    using out by (cases "script no_text_int edit_widgets fractional_session fractional_frame") simp
  have lr: "load_record no_text_int (displayed fractional_session fractional_frame)
      fractional_session =
      Inr (fractional_session\<lparr>staged := Some \<lparr>order = 1, flag = None,
                                 tags = map_of (map (\<lambda>c. (c, False)) TAG_COLS),
                                 notes = []\<rparr>\<rparr>)"
    using load_record_cases(1) [where ti = no_text_int and n = 1 and s = fractional_session
        and r = "displayed fractional_session fractional_frame"] i17 st
    by simp
  from script_effect [OF so] obtain s2 b0 where
    fs: "filter_unlabeled s' = filter_unlabeled fractional_session"
      "df s' = df fractional_session" "view_idx s' = cursor fractional_session fractional_frame"
    and l2: "load_record no_text_int (displayed fractional_session fractional_frame)
        (view_idx_check fractional_session ?v) = Inr s2"
      "staged s2 = Some b0" "staged s' = Some (edit_staged edit_widgets b0)"
    by auto
  from l2 have "staged s' = Some carried_edits"
    unfolding chk lr by (auto simp: carried_edits_def)
  with fs have s': "staged s' = Some carried_edits"
    "df s' = Some fractional_frame" "view_idx s' = 0" "filter_unlabeled s'"
    by (simp_all add: d cur fl)
  have eq: "s'\<lparr>filter_unlabeled := False\<rparr> = carried_session"
    using s' by (cases s') (simp add: carried_session_def)
  from so run_loaded [OF d, where ti = no_text_int and w = edit_widgets]
  have 1: "snd (snd (run no_text_int edit_widgets fractional_session)) = Rendered False True True"
    "fst (run no_text_int edit_widgets fractional_session) = s'"
    by simp_all
  have 2: "(fst (run no_text_int edit_widgets fractional_session))\<lparr>filter_unlabeled := False\<rparr> =
     carried_session"
    by (simp add: 1 eq)
  have ce: "order carried_edits = 1" "flag carried_edits = Some True"
    "notes carried_edits = ascii ''for 1.7''"
    by (simp_all add: carried_edits_def edit_staged_def w)
  have cs: "staged carried_session = Some carried_edits"
    by (simp add: carried_session_def)
  have 3: "load_record no_text_int (displayed carried_session fractional_frame) carried_session =
     Inr carried_session"
    using load_record_cases(2) [where ti = no_text_int and n = 1 and s = carried_session
        and r = "displayed carried_session fractional_frame"] i12 cs ce
    by simp
  show ?thesis
    by (intro conjI k17 1(1) 2 cs ce k12 3)
qed

text \<open>
  C7: for a non-empty view the bounds check leaves the cursor inside the view; a cursor
  beyond the view is reset to 0, a cursor inside it is kept, and the cursor a pass leaves
  in the session is inside the view as well.
\<close>

theorem cursor_clamped:
  "view f (filter_unlabeled s) \<noteq> [] \<Longrightarrow>
   view_idx (view_idx_check s (view f (filter_unlabeled s))) < length (view f (filter_unlabeled s)) \<and>
   (length (view f (filter_unlabeled s)) \<le> view_idx s \<longrightarrow>
      view_idx_check s (view f (filter_unlabeled s)) = s\<lparr>view_idx := 0\<rparr>) \<and>
   (view_idx s < length (view f (filter_unlabeled s)) \<longrightarrow>
      view_idx_check s (view f (filter_unlabeled s)) = s) \<and>
   (MAIN_FLAG_COL \<in> set (columns f) \<longrightarrow>
      view_idx (fst (script ti w s f)) < length (view f (filter_unlabeled s)))"
proof -
  assume v: "view f (filter_unlabeled s) \<noteq> []"
  let ?v = "view f (filter_unlabeled s)"
  have c: "cursor s f < length ?v" using v by (rule cursor_less)
  have "MAIN_FLAG_COL \<in> set (columns f) \<longrightarrow> view_idx (fst (script ti w s f)) < length ?v"
  proof
    assume m: "MAIN_FLAG_COL \<in> set (columns f)"
    obtain s' out where so: "script ti w s f = (s', out)" by (cases "script ti w s f")
    from script_cases [OF so] m v
    consider (c) "s' = view_idx_check s ?v"
      | (d) pos s2 b0 where "ORDER_COL \<in> set (columns f)"
          "real_pos f (displayed s f) = Some pos"
          "load_record ti (displayed s f) (view_idx_check s ?v) = Inr s2" "staged s2 = Some b0"
      by blast
    then have "view_idx s' < length ?v"
    proof cases
      case c
      with \<open>cursor s f < length ?v\<close> show ?thesis by (simp add: cursor_def)
    next
      case d
      from load_record_Inr [OF d(3)] have "view_idx s2 = cursor s f"
        by (auto simp: cursor_def)
      with script_buttons [OF m d(1) v d(2,3,4), where w = w] so c next_idx_less [OF v, of "cursor s f"]
        prev_idx_le [of "cursor s f"]
      show ?thesis by (auto simp: Let_def split: if_splits)
    qed
    with so show "view_idx (fst (script ti w s f)) < length ?v" by simp
  qed
  with c v show ?thesis
    by (auto simp: cursor_def view_idx_check_def)
qed

theorem cursor_clamped_witness:
  "view example_frame (filter_unlabeled (example_session\<lparr>view_idx := 5\<rparr>)) \<noteq> [] \<and>
   view_idx_check (example_session\<lparr>view_idx := 5\<rparr>)
     (view example_frame (filter_unlabeled (example_session\<lparr>view_idx := 5\<rparr>))) =
     example_session\<lparr>view_idx := 5\<rparr>\<lparr>view_idx := 0\<rparr> \<and>
   view_idx (fst (script no_text_int idle_widgets (example_session\<lparr>view_idx := 5\<rparr>) example_frame)) < 3"
proof -
  let ?s = "example_session\<lparr>view_idx := 5\<rparr>"
  have v: "view example_frame (filter_unlabeled ?s) \<noteq> []"
    by (simp add: example_view)
  have l: "length (view example_frame (filter_unlabeled ?s)) = 3"
    by (simp add: example_view)
  have i: "length (view example_frame (filter_unlabeled ?s)) \<le> view_idx ?s"
    by (simp add: example_view)
  have m: "MAIN_FLAG_COL \<in> set (columns example_frame)"
    using example_frame_cols by (simp add: has_columns_def)
  from cursor_clamped [OF v, where w = idle_widgets and ti = no_text_int] i m l v show ?thesis
    by metis
qed

section \<open>Loading, saving, skipping and exporting\<close>

lemma load_input_failures:
  "\<not> endswith (lower (name file)) (ascii ''.csv'') \<Longrightarrow> excel_file file = Inr sheets \<Longrightarrow>
     ascii ''Results'' \<notin> set (map fst sheets) \<Longrightarrow>
     load_input file = Inl (ValueError ''Sheet 'Results' not found in Excel'')"
  "\<not> endswith (lower (name file)) (ascii ''.csv'') \<Longrightarrow> excel_file file = Inl e \<Longrightarrow>
     load_input file = Inl e"
  "endswith (lower (name file)) (ascii ''.csv'') \<Longrightarrow> read_csv file = Inl e \<Longrightarrow>
     load_input file = Inl e"
  by (simp_all add: load_input_def)

lemma load_branch_error:
  "snd (load_branch w s) = Some e \<Longrightarrow> load_branch w s = (s, Some e) \<and> df s = None"
  by (auto simp: load_branch_def split: if_splits sum.splits)

lemma run_load_error: "snd (load_branch w s) = Some e \<Longrightarrow> run ti w s = (s, Some e, NoData)"
  using load_branch_error [of w s e] by (simp add: run_def)

lemma load_branch_input_error:
  "uploaded w = Some file \<Longrightarrow> df s = None \<Longrightarrow> load_input file = Inl e \<Longrightarrow>
   load_branch w s = (s, Some e)"
  by (simp add: load_branch_def)

text \<open>
  C8: with no Dataset in the session, an upload that is not named as a CSV file fails
  to load when the workbook has no sheet named \<^verbatim>\<open>Results\<close> or cannot be opened, and a
  CSV upload fails when it cannot be parsed; whenever the load block reports an error,
  the error is the one shown to the operator, the pass stops at the upload prompt and
  the session (Dataset, cursor, filter flag, staging buffer) is exactly what it was.
\<close>

theorem load_failure_keeps_state:
  "uploaded w = Some file \<Longrightarrow> df s = None \<Longrightarrow>
   (\<not> endswith (lower (name file)) (ascii ''.csv'') \<and> excel_file file = Inr sheets \<and>
      ascii ''Results'' \<notin> set (map fst sheets) \<longrightarrow>
      run ti w s = (s, Some (ValueError ''Sheet 'Results' not found in Excel''), NoData)) \<and>
   (\<not> endswith (lower (name file)) (ascii ''.csv'') \<and> excel_file file = Inl e \<longrightarrow>
      run ti w s = (s, Some e, NoData)) \<and>
   (endswith (lower (name file)) (ascii ''.csv'') \<and> read_csv file = Inl e \<longrightarrow>
      run ti w s = (s, Some e, NoData)) \<and>
   (\<forall>x. snd (load_branch w s) = Some x \<longrightarrow> run ti w s = (s, Some x, NoData))"
proof -
  assume u: "uploaded w = Some file" and d: "df s = None"
  have fail: "run ti w s = (s, Some x, NoData)" if "load_input file = Inl x" for x
    using load_branch_input_error [OF u d that] run_load_error [of w s x] by simp
  show ?thesis
    using fail load_input_failures run_load_error [of w s]
    by blast
qed

theorem load_failure_keeps_state_witness:
  "run no_text_int (idle_widgets\<lparr>uploaded := Some workbook_upload\<rparr>) initial_session =
     (initial_session, Some (ValueError ''Sheet 'Results' not found in Excel''), NoData) \<and>
   run no_text_int (idle_widgets\<lparr>uploaded := Some broken_upload\<rparr>) initial_session =
     (initial_session, Some ParserError, NoData)"
proof -
  have u1: "uploaded (idle_widgets\<lparr>uploaded := Some workbook_upload\<rparr>) = Some workbook_upload"
    and u2: "uploaded (idle_widgets\<lparr>uploaded := Some broken_upload\<rparr>) = Some broken_upload"
    by simp_all
  have d: "df initial_session = None"
    by (simp add: initial_session_def)
  have n1: "\<not> endswith (lower (name workbook_upload)) (ascii ''.csv'')"
    by (simp add: workbook_upload_def endswith_def lower_def lower_cp_def ascii_def)
  have e1: "excel_file workbook_upload = Inr [(ascii ''Sheet1'', Inr \<lparr>columns = [], rows = []\<rparr>)]"
    by (simp add: workbook_upload_def)
  have r1: "ascii ''Results'' \<notin> set (map fst [(ascii ''Sheet1'', Inr \<lparr>columns = [], rows = []\<rparr>)])"
    by (simp add: ascii_def)
  have n2: "endswith (lower (name broken_upload)) (ascii ''.csv'')"
    by (simp add: broken_upload_def endswith_def lower_def lower_cp_def ascii_def)
  have e2: "read_csv broken_upload = Inl ParserError"
    by (simp add: broken_upload_def)
  from load_failure_keeps_state [OF u1 d,
      where sheets = "[(ascii ''Sheet1'', Inr \<lparr>columns = [], rows = []\<rparr>)]" and e = ParserError
        and ti = no_text_int]
    load_failure_keeps_state [OF u2 d, where sheets = "[]" and e = ParserError and ti = no_text_int]
    n1 e1 r1 n2 e2
  show ?thesis by blast
qed

text \<open>
  C10: once the session holds a Dataset, the load block does nothing, whatever is
  uploaded: the pass is the same as with any other upload or none, and the session
  still holds a Dataset after it.
\<close>

theorem loaded_dataset_never_reloaded:
  "df s = Some f \<Longrightarrow>
   load_branch w s = (s, None) \<and>
   run ti (w\<lparr>uploaded := u\<rparr>) s = run ti w s \<and>
   df (fst (run ti w s)) \<noteq> None \<and>
   (snd (snd (run ti w s)) \<noteq> Rerun Save \<longrightarrow> df (fst (run ti w s)) = Some f)"
proof -
  assume d: "df s = Some f"
  obtain s' out where so: "script ti w s f = (s', out)" by (cases "script ti w s f")
  have r: "run ti w s = (s', None, out)"
    using run_loaded [OF d, where w = w and ti = ti] so by simp
  have r': "run ti (w\<lparr>uploaded := u\<rparr>) s = (s', None, out)"
    using run_loaded [OF d, where w = "w\<lparr>uploaded := u\<rparr>" and ti = ti] so
    by (simp add: script_upload_irrelevant)
  from script_effect [OF so] d have "df s' \<noteq> None \<and> (out \<noteq> Rerun Save \<longrightarrow> df s' = Some f)"
    by (cases out) (auto split: button.splits)
  with r r' load_branch_loaded [OF d, of w] show ?thesis by simp
qed

theorem loaded_dataset_never_reloaded_witness:
  "df example_session = Some example_frame \<and>
   load_branch (idle_widgets\<lparr>uploaded := Some broken_upload\<rparr>) example_session =
     (example_session, None) \<and>
   run no_text_int (idle_widgets\<lparr>uploaded := Some broken_upload\<rparr>) example_session =
     run no_text_int idle_widgets example_session"
proof -
  have d: "df example_session = Some example_frame"
    by (simp add: example_session_def)
  from loaded_dataset_never_reloaded [OF d,
      where w = "idle_widgets\<lparr>uploaded := Some broken_upload\<rparr>" and u = None and ti = no_text_int]
    loaded_dataset_never_reloaded [OF d,
      where w = idle_widgets and u = "Some broken_upload" and ti = no_text_int] d
  show ?thesis by simp
qed

lemma example_cursor_0: "view_idx s = 0 \<Longrightarrow> cursor s example_frame = 0"
  by (simp add: cursor_def example_view view_idx_check_def)

lemma example_displayed_0: "view_idx s = 0 \<Longrightarrow> displayed s example_frame = blank_record 1"
  by (simp add: displayed_def example_cursor_0 example_view)

lemma next_idx_int:
  "v \<noteq> [] \<Longrightarrow> int (next_idx v i) = min (int (length v) - 1) (int i + 1)"
  by (cases v) (auto simp: next_idx_def)

lemma run_after_load:
  assumes "df (fst (load_branch w s)) = Some f"
  shows "run ti w s = (fst (script ti w (fst (load_branch w s)) f), snd (load_branch w s),
                    snd (script ti w (fst (load_branch w s)) f))"
  using assms by (simp add: run_def split_beta)

lemma view_empty_remaining: "view f b = [] \<Longrightarrow> remaining f = 0"
  by (cases b) (simp_all add: view_def remaining_def)

lemma edit_staged_allow: "edit_staged (w\<lparr>allow_checked := a\<rparr>) b = edit_staged w b"
  by (simp add: edit_staged_def)

lemma load_branch_allow: "load_branch (w\<lparr>allow_checked := a\<rparr>) s = load_branch w s"
  by (simp add: load_branch_def)

lemma script_allow_state: "fst (script ti (w\<lparr>allow_checked := a\<rparr>) s f) = fst (script ti w s f)"
  by (auto simp: script_def edit_staged_allow Let_def split: option.splits sum.splits)

text \<open>
  C2: a pass in which Skip is pressed leaves the whole Dataset as it was, whatever the
  staging buffer held and whatever the widgets return in that pass; it never saves, and
  when it ends with Skip's rerun the staging buffer is discarded and the cursor is
  \<^verbatim>\<open>min(len(view) - 1, idx + 1)\<close>. The pass does end so whenever a record is displayed
  whose order key \<^verbatim>\<open>int\<close> accepts.
\<close>

theorem skip_never_commits:
  "df s = Some f \<Longrightarrow> skip_clicked w \<Longrightarrow> \<not> prev_clicked w \<Longrightarrow> run ti w s = (s', err, out) \<Longrightarrow>
   df s' = Some f \<and> filter_unlabeled s' = filter_unlabeled s \<and> out \<noteq> Rerun Save \<and>
   (out = Rerun Skip \<longrightarrow>
      staged s' = None \<and>
      int (view_idx s') =
        min (int (length (view f (filter_unlabeled s))) - 1) (int (cursor s f) + 1)) \<and>
   (MAIN_FLAG_COL \<in> set (columns f) \<and> ORDER_COL \<in> set (columns f) \<and>
    view f (filter_unlabeled s) \<noteq> [] \<and> py_int ti (displayed s f ORDER_COL) = Inr n \<longrightarrow>
      out = Rerun Skip)"
proof -
  assume d: "df s = Some f" and sk: "skip_clicked w" and np: "\<not> prev_clicked w"
    and r: "run ti w s = (s', err, out)"
  from r run_loaded [OF d, where w = w and ti = ti] have so: "script ti w s f = (s', out)"
    by (simp add: prod_eq_iff)
  note eff = script_effect [OF so]
  have a: "df s' = Some f \<and> out \<noteq> Rerun Save"
    using eff d sk np by (cases out) (auto split: button.splits)
  have b: "out = Rerun Skip \<longrightarrow> staged s' = None \<and>
      int (view_idx s') =
        min (int (length (view f (filter_unlabeled s))) - 1) (int (cursor s f) + 1)"
    using eff by (auto simp: next_idx_int)
  have c: "MAIN_FLAG_COL \<in> set (columns f) \<and> ORDER_COL \<in> set (columns f) \<and>
    view f (filter_unlabeled s) \<noteq> [] \<and> py_int ti (displayed s f ORDER_COL) = Inr n \<longrightarrow>
      out = Rerun Skip"
    using script_outcome [where f = f and s = s and n = n and w = w and ti = ti] so sk np by auto
  from a b c eff show ?thesis by blast
qed

theorem skip_never_commits_witness:
  "df editing_session = Some example_frame \<and> skip_clicked skip_widgets \<and>
   \<not> prev_clicked skip_widgets \<and>
   snd (snd (run no_text_int skip_widgets editing_session)) = Rerun Skip \<and>
   df (fst (run no_text_int skip_widgets editing_session)) = Some example_frame \<and>
   staged (fst (run no_text_int skip_widgets editing_session)) = None \<and>
   view_idx (fst (run no_text_int skip_widgets editing_session)) = 1"
proof -
  have d: "df editing_session = Some example_frame"
    by (simp add: editing_session_def example_session_def)
  have sk: "skip_clicked skip_widgets" and np: "\<not> prev_clicked skip_widgets"
    by (simp_all add: skip_widgets_def idle_widgets_def)
  have r: "run no_text_int skip_widgets editing_session =
      (fst (run no_text_int skip_widgets editing_session), fst (snd (run no_text_int skip_widgets editing_session)),
       snd (snd (run no_text_int skip_widgets editing_session)))"
    by simp
  have i0: "view_idx editing_session = 0"
    by (simp add: editing_session_def example_session_def)
  have cols: "MAIN_FLAG_COL \<in> set (columns example_frame)" "ORDER_COL \<in> set (columns example_frame)"
    using example_frame_cols by (simp_all add: has_columns_def)
  have v: "view example_frame (filter_unlabeled editing_session) \<noteq> []"
    "length (view example_frame (filter_unlabeled editing_session)) = 3"
    by (simp_all add: example_view)
  have o: "py_int no_text_int (displayed editing_session example_frame ORDER_COL) = Inr 1"
    by (simp add: example_displayed_0 [OF i0] blank_record_cells py_int_Num py_trunc_def)
  have c: "cursor editing_session example_frame = 0"
    by (rule example_cursor_0 [OF i0])
  from skip_never_commits [OF d sk np r, where n = 1] cols v o c d sk np
  show ?thesis by simp
qed

lemma script_empty_view:
  "MAIN_FLAG_COL \<in> set (columns f) \<Longrightarrow> view f (filter_unlabeled s) = [] \<Longrightarrow>
   script ti w s f = (s, AllLabeled)"
  by (simp add: script_def)

text \<open>
  C4: in a pass over the Dataset \<open>f\<close>, no enabled download button is rendered while
  \<open>remaining f > 0\<close> and the acknowledgment is unset; when the export section is rendered,
  the warning is shown exactly when \<open>remaining f > 0\<close> and the button is disabled exactly
  when moreover the acknowledgment is unset, and the Dataset is unchanged; the pass for
  the empty view has \<open>remaining f = 0\<close> and an enabled button; the acknowledgment has no
  effect on the session. A pass without a click that displays a record whose order key
  \<^verbatim>\<open>int\<close> accepts does render the export section.
\<close>

theorem export_gate:
  "df (fst (load_branch w s)) = Some f \<Longrightarrow> run ti w s = (s', err, out) \<Longrightarrow>
   (remaining f > 0 \<and> \<not> allow_checked w \<longrightarrow>
      out \<noteq> AllLabeled \<and> (\<forall>sd wn. out \<noteq> Rendered sd wn False)) \<and>
   (\<forall>sd wn dd. out = Rendered sd wn dd \<longrightarrow>
      wn = (remaining f > 0) \<and> dd = (remaining f > 0 \<and> \<not> allow_checked w) \<and>
      df s' = Some f) \<and>
   (out = AllLabeled \<longrightarrow> remaining f = 0 \<and> df s' = Some f) \<and>
   fst (run ti (w\<lparr>allow_checked := a\<rparr>) s) = s' \<and>
   (MAIN_FLAG_COL \<in> set (columns f) \<and> ORDER_COL \<in> set (columns f) \<and>
    view f (filter_unlabeled (fst (load_branch w s))) \<noteq> [] \<and>
    py_int ti (displayed (fst (load_branch w s)) f ORDER_COL) = Inr n \<and>
    \<not> prev_clicked w \<and> \<not> skip_clicked w \<and> \<not> save_clicked w \<longrightarrow>
      out = Rendered (cs_choice w = ChoiceSelect) (remaining f > 0)
              (remaining f > 0 \<and> \<not> allow_checked w))"
proof -
  assume d: "df (fst (load_branch w s)) = Some f" and r: "run ti w s = (s', err, out)"
  let ?s0 = "fst (load_branch w s)"
  from r run_after_load [OF d] have so: "script ti w ?s0 f = (s', out)"
    by (simp add: prod_eq_iff)
  note eff = script_effect [OF so]
  have a: "\<forall>sd wn dd. out = Rendered sd wn dd \<longrightarrow>
      wn = (remaining f > 0) \<and> dd = (remaining f > 0 \<and> \<not> allow_checked w) \<and> df s' = Some f"
    using eff d by auto
  have b: "out = AllLabeled \<longrightarrow> remaining f = 0 \<and> df s' = Some f"
    using eff d by (auto dest: view_empty_remaining)
  have d': "df (fst (load_branch (w\<lparr>allow_checked := a\<rparr>) s)) = Some f"
    using d by (simp add: load_branch_allow)
  have c: "fst (run ti (w\<lparr>allow_checked := a\<rparr>) s) = s'"
    using run_after_load [OF d'] so by (simp add: load_branch_allow script_allow_state)
  have e: "MAIN_FLAG_COL \<in> set (columns f) \<and> ORDER_COL \<in> set (columns f) \<and>
    view f (filter_unlabeled ?s0) \<noteq> [] \<and> py_int ti (displayed ?s0 f ORDER_COL) = Inr n \<and>
    \<not> prev_clicked w \<and> \<not> skip_clicked w \<and> \<not> save_clicked w \<longrightarrow>
      out = Rendered (cs_choice w = ChoiceSelect) (remaining f > 0)
              (remaining f > 0 \<and> \<not> allow_checked w)"
    using script_outcome [where f = f and s = ?s0 and n = n and w = w and ti = ti] so by auto
  have g: "remaining f > 0 \<and> \<not> allow_checked w \<longrightarrow>
      out \<noteq> AllLabeled \<and> (\<forall>sd wn. out \<noteq> Rendered sd wn False)"
    using a b by auto
  from g a b c e show ?thesis by blast
qed

theorem export_gate_witness:
  "remaining example_frame = 3 \<and>
   snd (snd (run no_text_int idle_widgets example_session)) = Rendered True True True \<and>
   snd (snd (run no_text_int (idle_widgets\<lparr>allow_checked := True\<rparr>) example_session)) =
     Rendered True True False \<and>
   fst (run no_text_int (idle_widgets\<lparr>allow_checked := True\<rparr>) example_session) =
     fst (run no_text_int idle_widgets example_session) \<and>
   df (fst (run no_text_int (idle_widgets\<lparr>allow_checked := True\<rparr>) example_session)) = Some example_frame \<and>
   remaining empty_frame = 0 \<and>
   snd (snd (run no_text_int idle_widgets (example_session\<lparr>df := Some empty_frame\<rparr>))) = AllLabeled"
proof -
  let ?w = "idle_widgets\<lparr>allow_checked := True\<rparr>"
  let ?e = "example_session\<lparr>df := Some empty_frame\<rparr>"
  have lb: "fst (load_branch w example_session) = example_session" for w
    by (simp add: load_branch_def example_session_def)
  have lbe: "fst (load_branch idle_widgets ?e) = ?e"
    by (simp add: load_branch_def)
  have d: "df (fst (load_branch w example_session)) = Some example_frame" for w
    by (simp add: lb) (simp add: example_session_def)
  have de: "df (fst (load_branch idle_widgets ?e)) = Some empty_frame"
    by (simp add: lbe)
  have r: "run ti w s = (fst (run ti w s), fst (snd (run ti w s)), snd (snd (run ti w s)))"
    for ti w s
    by simp
  have i0: "view_idx example_session = 0"
    by (simp add: example_session_def)
  have cols: "MAIN_FLAG_COL \<in> set (columns example_frame)" "ORDER_COL \<in> set (columns example_frame)"
    using example_frame_cols by (simp_all add: has_columns_def)
  have v: "view example_frame (filter_unlabeled example_session) \<noteq> []"
    by (simp add: example_view)
  have o: "py_int no_text_int (displayed example_session example_frame ORDER_COL) = Inr 1"
    by (simp add: example_displayed_0 [OF i0] blank_record_cells py_int_Num py_trunc_def)
  have idle: "\<not> prev_clicked idle_widgets" "\<not> skip_clicked idle_widgets"
    "\<not> save_clicked idle_widgets" "\<not> allow_checked idle_widgets"
    "cs_choice idle_widgets = ChoiceSelect"
    by (simp_all add: idle_widgets_def)
  have re: "remaining empty_frame = 0"
    by (simp add: remaining_def empty_frame_def)
  have oe: "snd (snd (run no_text_int idle_widgets ?e)) = AllLabeled"
  proof -
    have "MAIN_FLAG_COL \<in> set (columns empty_frame)"
      by (simp add: empty_frame_def)
    moreover have "view empty_frame (filter_unlabeled ?e) = []"
      by (simp add: view_def empty_frame_def)
    ultimately have "script no_text_int idle_widgets ?e empty_frame = (?e, AllLabeled)"
      by (rule script_empty_view)
    with run_after_load [OF de] show ?thesis by (simp add: lbe)
  qed
  from export_gate [OF d r, where w = idle_widgets and a = True and n = 1 and ti = no_text_int]
    cols v o idle example_remaining
  have 1: "snd (snd (run no_text_int idle_widgets example_session)) = Rendered True True True"
    "fst (run no_text_int ?w example_session) = fst (run no_text_int idle_widgets example_session)"
    by (simp_all add: lb)
  from export_gate [OF d r, where w = ?w and a = True and n = 1 and ti = no_text_int]
    cols v o idle example_remaining
  have 2: "snd (snd (run no_text_int ?w example_session)) = Rendered True True False"
    "df (fst (run no_text_int ?w example_session)) = Some example_frame"
    by (simp_all add: lb)
  from export_gate [OF de r, where a = True and n = 1 and ti = no_text_int] oe re
  have 3: "remaining empty_frame = 0" by simp
  from 1 2 3 oe example_remaining show ?thesis by simp
qed

lemma commit_row_edit: "commit_row (edit_staged w b0) r = saved_row w r"
proof -
  have "fold (\<lambda>c r. r(c \<mapsto> Num (if (case tags (edit_staged w b0) c of Some t \<Rightarrow> t | None \<Rightarrow> False)
                                   then 1 else 0))) TAG_COLS x =
        fold (\<lambda>c r. r(c \<mapsto> Num (if tag_checked w c then 1 else 0))) TAG_COLS x" for x :: row
    by (rule fold_cong) (simp_all add: edit_staged_tags)
  then show ?thesis
    by (simp add: commit_row_def saved_row_def edit_staged_flag edit_staged_notes
        del: fun_upd_apply)
qed

lemma saved_row_cells:
  "saved_row w r MAIN_FLAG_COL =
     Some (Str (if cs_choice w = ChoiceY then ascii ''Y'' else ascii ''N''))"
  "c \<in> set TAG_COLS \<Longrightarrow> saved_row w r c = Some (Num (if tag_checked w c then 1 else 0))"
  "saved_row w r NOTES_COL = Some (Str (notes_new w))"
  "c \<noteq> MAIN_FLAG_COL \<Longrightarrow> c \<notin> set TAG_COLS \<Longrightarrow> c \<noteq> NOTES_COL \<Longrightarrow> saved_row w r c = r c"
  using flag_not_tag notes_not_tag named_cols_distinct
  by (auto simp: saved_row_def fold_upd_apply)

text \<open>The pass that saves, in full.\<close>

lemma script_save:
  assumes "script ti w s f = (s', Rerun Save)" "has_columns f"
  shows "\<exists>pos. real_pos f (displayed s f) = Some pos \<and> pos < length (rows f) \<and>
           df s' = Some (f\<lparr>rows := (rows f)[pos := saved_row w (rows f ! pos)]\<rparr>)"
proof -
  from script_effect [OF assms(1)] obtain pos s2 b0 where
    p: "real_pos f (displayed s f) = Some pos"
    and d: "df s' = Some (commit pos (edit_staged w b0) f)"
    by auto
  from real_pos_Some [OF p] have l: "pos < length (rows f)" by simp
  from commit_rows [OF assms(2) l, of "edit_staged w b0"] d p l show ?thesis
    by (simp add: commit_row_edit)
qed

lemma unlabeled_mask_rows: "unlabeled_mask (f\<lparr>rows := xs\<rparr>) = unlabeled_mask f"
  by (simp add: fun_eq_iff unlabeled_mask_def tag_sum_def)

lemma saved_row_labeled: "\<not> unlabeled_mask f (saved_row w r)"
  by (simp add: unlabeled_mask_def saved_row_cells isna_def)

lemma remaining_saved:
  assumes "pos < length (rows f)"
  shows "remaining (f\<lparr>rows := (rows f)[pos := saved_row w (rows f ! pos)]\<rparr>) +
           (if unlabeled_mask f (rows f ! pos) then 1 else 0) = remaining f"
  using length_filter_update [OF assms, of "unlabeled_mask f" "saved_row w (rows f ! pos)"]
  by (simp add: remaining_def unlabeled_mask_rows saved_row_labeled)

lemma tag_sum_all: "set TAG_COLS \<subseteq> set (columns f) \<Longrightarrow> tag_sum f r = sum_list (map (\<lambda>c. num (r c)) TAG_COLS)"
  by (simp add: tag_sum_def subset_iff)

lemma sum_list_nonneg_zero:
  "(\<And>x. x \<in> set xs \<Longrightarrow> (0::real) \<le> g x) \<Longrightarrow> sum_list (map g xs) = 0 \<longleftrightarrow> (\<forall>x \<in> set xs. g x = 0)"
proof (induction xs)
  case Nil
  then show ?case by simp
next
  case (Cons x xs)
  have "0 \<le> g x"
    using Cons.prems by simp
  moreover have "0 \<le> sum_list (map g xs)"
    by (rule sum_list_nonneg) (use Cons.prems in auto)
  ultimately
  have "g x + sum_list (map g xs) = 0 \<longleftrightarrow> g x = 0 \<and> sum_list (map g xs) = 0"
    by arith
  with Cons show ?case by simp
qed

lemma unlabeled_mask_every_tag:
  assumes "has_columns f" "\<And>c. c \<in> set TAG_COLS \<Longrightarrow> 0 \<le> num (r c)"
  shows "unlabeled_mask f r \<longleftrightarrow> (\<forall>c \<in> set TAG_COLS. num (r c) = 0) \<and> isna (r MAIN_FLAG_COL)"
proof -
  have "set TAG_COLS \<subseteq> set (columns f)"
    using assms(1) by (auto simp: has_columns_def)
  then show ?thesis
    using sum_list_nonneg_zero [of TAG_COLS "\<lambda>c. num (r c)"] assms(2)
    by (simp add: unlabeled_mask_def tag_sum_all)
qed

lemma set_loc_columns: "set (columns f) \<subseteq> set (columns (set_loc pos c v f))"
  by (auto simp: set_loc_def add_column_def Let_def)

lemma fold_set_loc_columns:
  "set (columns f) \<subseteq> set (columns (fold (\<lambda>c. set_loc pos c (g c)) cs f))"
proof (induction cs arbitrary: f)
  case Nil
  then show ?case by simp
next
  case (Cons c cs)
  from set_loc_columns [of f pos c "g c"] Cons.IH [of "set_loc pos c (g c) f"]
  show ?case by auto
qed

lemma commit_has_columns: "has_columns f \<Longrightarrow> has_columns (commit pos b f)"
proof -
  assume h: "has_columns f"
  let ?f1 = "set_loc pos MAIN_FLAG_COL
               (Str (if flag b = Some True then ascii ''Y'' else ascii ''N'')) f"
  let ?f2 = "fold (\<lambda>c. set_loc pos c
               (Num (if (case tags b c of Some t \<Rightarrow> t | None \<Rightarrow> False) then 1 else 0)))
               TAG_COLS ?f1"
  have "set (columns f) \<subseteq> set (columns ?f1)"
    by (rule set_loc_columns)
  also have "\<dots> \<subseteq> set (columns ?f2)"
    by (rule fold_set_loc_columns)
  also have "\<dots> \<subseteq> set (columns (set_loc pos NOTES_COL (Str (notes b)) ?f2))"
    by (rule set_loc_columns)
  finally show ?thesis
    using h by (auto simp: has_columns_def commit_def Let_def)
qed

text \<open>
  Every Dataset a session can come to hold has the columns the script writes: the load
  block creates them, and a pass keeps them.
\<close>

lemma run_has_columns:
  assumes "\<And>f. df s = Some f \<Longrightarrow> has_columns f" "df (fst (run ti w s)) = Some f'"
  shows "has_columns f'"
proof -
  let ?s0 = "fst (load_branch w s)"
  have s0: "has_columns f" if "df ?s0 = Some f" for f
    using that assms(1) [of f]
    by (auto simp: load_branch_def split: if_splits sum.splits dest: prepare_has_columns)
  show ?thesis
  proof (cases "df ?s0")
    case None
    then have "run ti w s = (?s0, snd (load_branch w s), NoData)"
      by (simp add: run_def split_beta)
    with None assms(2) show ?thesis by simp
  next
    case (Some f)
    obtain s' out where so: "script ti w ?s0 f = (s', out)" by (cases "script ti w ?s0 f")
    with run_after_load [OF Some] assms(2) have d: "df s' = Some f'" by simp
    from script_effect [OF so] d Some s0 [OF Some] show ?thesis
      by (cases out) (auto split: button.splits intro: commit_has_columns)
  qed
qed

text \<open>
  What a pass that saves does, for a Dataset with the columns of \<open>has_columns\<close> (as
  every Dataset of a session is, \<open>run_has_columns\<close>): it writes one record, the first
  record of the Dataset whose order key equals the displayed record's, which is the
  displayed record itself when the order keys are pairwise distinct. That record's flag
  becomes the text \<^verbatim>\<open>Y\<close> or \<^verbatim>\<open>N\<close>, its ten tag fields become 1 or 0 and its notes the
  notes of the pass (\<open>saved_row_cells\<close>); all other records stay as they were, the cursor
  becomes \<^verbatim>\<open>min(len(view) - 1, idx + 1)\<close> and the staging buffer is discarded.
\<close>

lemma save_writes_first_match:
  assumes "df s = Some f" "has_columns f" "run ti w s = (s', err, Rerun Save)"
  shows "\<exists>pos. real_pos f (displayed s f) = Some pos \<and> pos < length (rows f) \<and>
      (rows f ! pos) ORDER_COL = displayed s f ORDER_COL \<and>
      (\<forall>j < pos. (rows f ! j) ORDER_COL \<noteq> displayed s f ORDER_COL) \<and>
      (distinct (map (\<lambda>r. r ORDER_COL) (rows f)) \<longrightarrow> rows f ! pos = displayed s f) \<and>
      df s' = Some (f\<lparr>rows := (rows f)[pos := saved_row w (rows f ! pos)]\<rparr>) \<and>
      view_idx s' = next_idx (view f (filter_unlabeled s)) (cursor s f) \<and>
      staged s' = None \<and> filter_unlabeled s' = filter_unlabeled s"
proof -
  from assms(3) run_loaded [OF assms(1), where w = w and ti = ti]
  have so: "script ti w s f = (s', Rerun Save)"
    by (simp add: prod_eq_iff)
  from script_save [OF so assms(2)] obtain pos where
    p: "real_pos f (displayed s f) = Some pos" "pos < length (rows f)"
      "df s' = Some (f\<lparr>rows := (rows f)[pos := saved_row w (rows f ! pos)]\<rparr>)"
    by blast
  from script_effect [OF so] have v: "view f (filter_unlabeled s) \<noteq> []" and rest:
    "staged s' = None" "filter_unlabeled s' = filter_unlabeled s"
    "view_idx s' = next_idx (view f (filter_unlabeled s)) (cursor s f)"
    by auto
  have k: "(rows f ! pos) ORDER_COL = displayed s f ORDER_COL"
    using real_pos_Some [OF p(1)] by simp
  have e: "\<forall>j < pos. (rows f ! j) ORDER_COL \<noteq> displayed s f ORDER_COL"
    using real_pos_first [OF p(1)] by blast
  have dis: "distinct (map (\<lambda>r. r ORDER_COL) (rows f)) \<longrightarrow> rows f ! pos = displayed s f"
    using real_pos_distinct [OF p(1) displayed_in_rows [OF v]] by blast
  from p k e dis rest show ?thesis
    by blast
qed

text \<open>
  A pass that saves lowers \<open>remaining\<close> by one when the record it writes was unlabeled
  and leaves it unchanged otherwise; a pass that skips leaves the Dataset, and so
  \<open>remaining\<close>, unchanged.
\<close>

lemma remaining_after_save:
  assumes "df s = Some f" "has_columns f" "run ti w s = (s', err, Rerun Save)"
  shows "\<exists>pos f'. real_pos f (displayed s f) = Some pos \<and> df s' = Some f' \<and>
      remaining f' + (if unlabeled_mask f (rows f ! pos) then 1 else 0) = remaining f"
proof -
  from save_writes_first_match [OF assms] obtain pos where
    p: "real_pos f (displayed s f) = Some pos" "pos < length (rows f)"
      "df s' = Some (f\<lparr>rows := (rows f)[pos := saved_row w (rows f ! pos)]\<rparr>)"
    by blast
  with remaining_saved [OF p(2), of w] show ?thesis by blast
qed

lemma remaining_after_skip:
  assumes "df s = Some f" "run ti w s = (s', err, Rerun Skip)"
  shows "df s' = Some f"
proof -
  from assms(2) run_loaded [OF assms(1), where w = w and ti = ti]
  have so: "script ti w s f = (s', Rerun Skip)"
    by (simp add: prod_eq_iff)
  from script_effect [OF so] assms(1) show ?thesis by simp
qed

lemma example_orders:
  "map (\<lambda>r. r ORDER_COL) (rows example_frame) = [Some (Num 1), Some (Num 2), Some (Num 3)]"
  by (simp add: example_frame_def blank_record_cells)

lemma save_widgets_fields:
  "cs_choice save_widgets = ChoiceY" "\<not> prev_clicked save_widgets" "\<not> skip_clicked save_widgets"
  "save_clicked save_widgets" "notes_new save_widgets = ascii ''GaN foundry''"
  "tag_checked save_widgets c \<longleftrightarrow> c = ascii ''supply_chain_Package''"
  by (simp_all add: save_widgets_def idle_widgets_def)

lemma duplicate_frame_cols: "has_columns duplicate_frame"
  by (auto simp: has_columns_def duplicate_frame_def)

lemma duplicate_view: "view duplicate_frame True = [blank_record 1]"
  by (simp add: view_def duplicate_frame_def unlabeled_blank labeled_not_unlabeled)

lemma duplicate_displayed: "displayed duplicate_session duplicate_frame = blank_record 1"
  by (simp add: displayed_def cursor_def duplicate_session_def duplicate_view view_idx_check_def)

lemma duplicate_real_pos: "real_pos duplicate_frame (blank_record 1) = Some 0"
  by (simp add: real_pos_def duplicate_frame_def cell_eq_def isna_def blank_record_cells
      labeled_record_cells)

lemma duplicate_remaining: "remaining duplicate_frame = 1"
  by (simp add: remaining_def duplicate_frame_def unlabeled_blank labeled_not_unlabeled)

lemma duplicate_save:
  "snd (snd (run no_text_int save_widgets duplicate_session)) = Rerun Save \<and>
   df (fst (run no_text_int save_widgets duplicate_session)) =
     Some (duplicate_frame\<lparr>rows := [saved_row save_widgets (labeled_record 1), blank_record 1]\<rparr>)"
proof -
  have d: "df duplicate_session = Some duplicate_frame"
    by (simp add: duplicate_session_def)
  have cols: "MAIN_FLAG_COL \<in> set (columns duplicate_frame)"
    "ORDER_COL \<in> set (columns duplicate_frame)"
    using duplicate_frame_cols by (simp_all add: has_columns_def)
  have v: "view duplicate_frame (filter_unlabeled duplicate_session) \<noteq> []"
    by (simp add: duplicate_session_def duplicate_view)
  have o: "py_int no_text_int (displayed duplicate_session duplicate_frame ORDER_COL) = Inr 1"
    by (simp add: duplicate_displayed blank_record_cells py_int_Num py_trunc_def)
  have out: "snd (script no_text_int save_widgets duplicate_session duplicate_frame) = Rerun Save"
    using script_outcome [OF cols v o, where w = save_widgets] by (simp add: save_widgets_fields)
  then have so: "script no_text_int save_widgets duplicate_session duplicate_frame =
      (fst (script no_text_int save_widgets duplicate_session duplicate_frame), Rerun Save)"
    by (simp add: prod_eq_iff)
  from script_save [OF so duplicate_frame_cols] duplicate_real_pos
  have "df (fst (script no_text_int save_widgets duplicate_session duplicate_frame)) =
     Some (duplicate_frame\<lparr>rows := [saved_row save_widgets (labeled_record 1), blank_record 1]\<rparr>)"
    by (simp add: duplicate_displayed) (simp add: duplicate_frame_def)
  with out run_loaded [OF d, where w = save_widgets and ti = no_text_int] show ?thesis by simp
qed

lemma fold_drop_none:
  "(\<And>c. c \<in> set cs \<Longrightarrow> \<not> P c) \<Longrightarrow>
   fold (\<lambda>c d. if P c then drop_column c d else d) cs d = d"
  by (induction cs arbitrary: d) auto

text \<open>The loader keeps an order column that repeats a key as it is.\<close>

lemma ensure_order_duplicate: "ensure_order duplicate_frame = Inr duplicate_frame"
proof -
  have un: "\<not> is_unnamed c" if "c \<in> set (columns duplicate_frame)" for c
    using that required_not_unnamed tags_not_unnamed by (auto simp: duplicate_frame_def)
  have d1: "fold (\<lambda>c d. if is_unnamed c then drop_column c d else d)
              (columns duplicate_frame) duplicate_frame = duplicate_frame"
    by (rule fold_drop_none) (rule un)
  have o: "ORDER_COL \<in> set (columns duplicate_frame)"
    by (simp add: duplicate_frame_def)
  have keys: "map (\<lambda>r. r ORDER_COL) (rows duplicate_frame) = [Some (Num 1), Some (Num 1)]"
    by (simp add: duplicate_frame_def blank_record_cells labeled_record_cells)
  have srt: "sorted (map (\<lambda>r. sort_rank (r ORDER_COL)) (rows duplicate_frame))"
    using keys by (simp add: duplicate_frame_def)
  have nostr: "\<not> (\<exists>r \<in> set (rows duplicate_frame). is_Str (r ORDER_COL))"
    by (simp add: duplicate_frame_def blank_record_cells labeled_record_cells)
  have "sort_values ORDER_COL duplicate_frame = Inr duplicate_frame"
    using o nostr by (simp add: sort_values_def sort_key_id_if_sorted [OF srt])
  then show ?thesis
    using o by (simp add: ensure_order_def Let_def d1)
qed

text \<open>
  C1 fails on the code when two records carry the same order key. Both records of the
  Dataset below have the key 1; the record at position 0 is labeled \<^verbatim>\<open>N\<close>, the record at
  position 1 is unlabeled and is the one the view of unlabeled records displays; the
  loader keeps such an order column as it is. The script looks the displayed record up
  by its key and takes the first match, position 0. So Save with the flag set to \<^verbatim>\<open>Y\<close>
  does not commit the displayed record, which stays as it was with its flag unset, and
  it modifies another record: the flag of the record at position 0 changes from \<^verbatim>\<open>N\<close>
  to \<^verbatim>\<open>Y\<close>.
\<close>

theorem save_overwrites_other_record:
  "ensure_order duplicate_frame = Inr duplicate_frame \<and>
   df duplicate_session = Some duplicate_frame \<and>
   displayed duplicate_session duplicate_frame = rows duplicate_frame ! 1 \<and>
   real_pos duplicate_frame (displayed duplicate_session duplicate_frame) = Some 0 \<and>
   (rows duplicate_frame ! 1) MAIN_FLAG_COL = Some NA \<and>
   (rows duplicate_frame ! 0) MAIN_FLAG_COL = Some (Str (ascii ''N'')) \<and>
   cs_choice save_widgets = ChoiceY \<and>
   snd (snd (run no_text_int save_widgets duplicate_session)) = Rerun Save \<and>
   rows (the (df (fst (run no_text_int save_widgets duplicate_session)))) ! 1 =
     rows duplicate_frame ! 1 \<and>
   (rows (the (df (fst (run no_text_int save_widgets duplicate_session)))) ! 1) MAIN_FLAG_COL =
     Some NA \<and>
   (rows (the (df (fst (run no_text_int save_widgets duplicate_session)))) ! 0) MAIN_FLAG_COL =
     Some (Str (ascii ''Y''))"
proof -
  have after: "rows (the (df (fst (run no_text_int save_widgets duplicate_session)))) =
      [saved_row save_widgets (labeled_record 1), blank_record 1]"
    using duplicate_save by simp
  have before: "rows duplicate_frame = [labeled_record 1, blank_record 1]"
    by (simp add: duplicate_frame_def)
  have d: "df duplicate_session = Some duplicate_frame"
    by (simp add: duplicate_session_def)
  show ?thesis
    using duplicate_save ensure_order_duplicate d
    by (simp add: after before duplicate_displayed duplicate_real_pos blank_record_cells
        labeled_record_cells saved_row_cells save_widgets_fields)
qed

text \<open>
  C3 fails on the code for the same Dataset and the same lookup by the first match:
  the displayed record is unlabeled and Save succeeds, yet \<open>remaining\<close> is 1 before the
  pass and 1 after it, because the record written is the labeled one that shares the
  order key, and the displayed record is still unlabeled.
\<close>

theorem remaining_unchanged_by_save:
  "df duplicate_session = Some duplicate_frame \<and>
   unlabeled_mask duplicate_frame (displayed duplicate_session duplicate_frame) \<and>
   remaining duplicate_frame = 1 \<and>
   snd (snd (run no_text_int save_widgets duplicate_session)) = Rerun Save \<and>
   remaining (the (df (fst (run no_text_int save_widgets duplicate_session)))) = 1 \<and>
   unlabeled_mask (the (df (fst (run no_text_int save_widgets duplicate_session))))
     (rows (the (df (fst (run no_text_int save_widgets duplicate_session)))) ! 1)"
proof -
  let ?f' = "duplicate_frame\<lparr>rows := [saved_row save_widgets (labeled_record 1),
                                          blank_record 1]\<rparr>"
  have "remaining ?f' = 1"
    by (simp add: remaining_def unlabeled_mask_rows saved_row_labeled unlabeled_blank)
  moreover have "unlabeled_mask ?f' (rows ?f' ! 1)"
    by (simp add: unlabeled_blank)
  moreover have "df duplicate_session = Some duplicate_frame"
    by (simp add: duplicate_session_def)
  ultimately show ?thesis
    using duplicate_save
    by (simp add: duplicate_displayed unlabeled_blank duplicate_remaining)
qed

section \<open>The order key\<close>

lemma order_not_needed: "ORDER_COL \<notin> set needed"
  by (simp add: needed_def ORDER_COL_def COL_COMPANY_def COL_TRADE_EN_def COL_DESC_def
      COL_WEBSITE_def COL_PRI_IND_D_def COL_SEC_IND_D_def COL_BVD_SECT_def ascii_def)

lemma prepare_absent:
  assumes "ORDER_COL \<notin> set (columns d0)"
  shows "\<exists>d. prepare d0 = Inr d \<and> length (rows d) = length (rows d0) \<and>
     (\<forall>i < length (rows d0). (rows d ! i) ORDER_COL = Some (Num (real i + 1)) \<and>
        (\<forall>c \<in> set (columns d0). \<not> is_unnamed c \<longrightarrow> (rows d ! i) c = (rows d0 ! i) c))"
proof -
  let ?d1 = "fold (ensure_column NA) needed d0"
  let ?d2 = "fold (ensure_column (Num 0)) TAG_COLS ?d1"
  let ?d3 = "ensure_column NA MAIN_FLAG_COL ?d2"
  let ?d4 = "ensure_column NA NOTES_COL ?d3"
  have p: "prepare d0 = ensure_order ?d4"
    by (simp add: prepare_def Let_def)
  have no: "ORDER_COL \<notin> set (columns ?d4)"
    using assms order_not_needed order_not_tag named_cols_distinct
    by (auto simp: ensure_column_single fold_ensure_column)
  have len: "length (rows ?d4) = length (rows d0)"
    by (simp add: ensure_column_single fold_ensure_column)
  have keep: "(rows ?d4 ! i) c = (rows d0 ! i) c"
    if "i < length (rows d0)" "c \<in> set (columns d0)" for i c
  proof -
    have 1: "(rows ?d1 ! i) c = (rows d0 ! i) c"
      using that by (simp add: fold_ensure_column)
    have 2: "(rows ?d2 ! i) c = (rows ?d1 ! i) c"
      using that by (simp add: fold_ensure_column)
    have 3: "(rows ?d3 ! i) c = (rows ?d2 ! i) c"
      using that by (simp add: ensure_column_single fold_ensure_column)
    have 4: "(rows ?d4 ! i) c = (rows ?d3 ! i) c"
      using that by (simp add: ensure_column_single fold_ensure_column)
    from 1 2 3 4 show ?thesis by simp
  qed
  from ensure_order_absent [OF no] obtain d where
    d: "ensure_order ?d4 = Inr d" "length (rows d) = length (rows ?d4)"
      "\<forall>i < length (rows ?d4). (rows d ! i) ORDER_COL = Some (Num (real i + 1)) \<and>
        (\<forall>c. c \<noteq> ORDER_COL \<and> \<not> (is_unnamed c \<and> c \<in> set (columns ?d4)) \<longrightarrow>
             (rows d ! i) c = (rows ?d4 ! i) c)"
    by blast
  have "(rows d ! i) c = (rows d0 ! i) c"
    if "i < length (rows d0)" "c \<in> set (columns d0)" "\<not> is_unnamed c" for i c
  proof -
    from that(2) assms have "c \<noteq> ORDER_COL" by auto
    with d(3) that len have "(rows d ! i) c = (rows ?d4 ! i) c" by simp
    with keep [OF that(1,2)] show ?thesis by simp
  qed
  with d p len show ?thesis by auto
qed

text \<open>
  C5: for an upload without the order column, \<^verbatim>\<open>ensure_order\<close> and the whole load
  block succeed, keep the number and the sequence of the records with their named
  columns, and give the record at position \<open>i\<close> (from 0) the order key \<open>i + 1\<close>, so the
  keys are \<open>1, \<dots>, N\<close> in the original row order and the records are sorted by them.
  Whatever \<^verbatim>\<open>ensure_order\<close> returns is sorted by the order key. No pass changes the
  order key of any record, and the view consists of records of the Dataset: the keys
  are never recomputed.
\<close>

theorem order_keys_assigned_once:
  "(ORDER_COL \<notin> set (columns d) \<longrightarrow>
      (\<exists>d'. ensure_order d = Inr d' \<and> length (rows d') = length (rows d) \<and>
         map (\<lambda>r. r ORDER_COL) (rows d') =
           map (\<lambda>i. Some (Num (real i))) [1..<Suc (length (rows d))] \<and>
         (\<forall>i < length (rows d). (rows d' ! i) ORDER_COL = Some (Num (real i + 1)) \<and>
            (\<forall>c. c \<noteq> ORDER_COL \<and> \<not> is_unnamed c \<longrightarrow> (rows d' ! i) c = (rows d ! i) c))) \<and>
      (\<exists>d'. prepare d = Inr d' \<and> length (rows d') = length (rows d) \<and>
         map (\<lambda>r. r ORDER_COL) (rows d') =
           map (\<lambda>i. Some (Num (real i))) [1..<Suc (length (rows d))] \<and>
         (\<forall>i < length (rows d). \<forall>c \<in> set (columns d). \<not> is_unnamed c \<longrightarrow>
              (rows d' ! i) c = (rows d ! i) c))) \<and>
   (\<forall>d'. ensure_order d = Inr d' \<longrightarrow> sorted (map (\<lambda>r. sort_rank (r ORDER_COL)) (rows d'))) \<and>
   (df s = Some f \<and> run ti w s = (s', err, out) \<longrightarrow>
      (\<exists>f'. df s' = Some f' \<and>
         map (\<lambda>r. r ORDER_COL) (rows f') = map (\<lambda>r. r ORDER_COL) (rows f))) \<and>
   set (view f b) \<subseteq> set (rows f)"
proof -
  have keys: "map (\<lambda>r. r ORDER_COL) xs = map (\<lambda>i. Some (Num (real i))) [1..<Suc n]"
    if "length xs = n" "\<forall>i < n. (xs ! i) ORDER_COL = Some (Num (real i + 1))" for xs :: "row list" and n
    using that by (intro nth_equalityI) (auto simp: nth_upt simp del: upt_Suc)
  have a: "\<exists>d'. ensure_order d = Inr d' \<and> length (rows d') = length (rows d) \<and>
         map (\<lambda>r. r ORDER_COL) (rows d') =
           map (\<lambda>i. Some (Num (real i))) [1..<Suc (length (rows d))] \<and>
         (\<forall>i < length (rows d). (rows d' ! i) ORDER_COL = Some (Num (real i + 1)) \<and>
            (\<forall>c. c \<noteq> ORDER_COL \<and> \<not> is_unnamed c \<longrightarrow> (rows d' ! i) c = (rows d ! i) c))"
    if "ORDER_COL \<notin> set (columns d)"
  proof -
    from ensure_order_absent [OF that] obtain d' where
      d': "ensure_order d = Inr d'" "length (rows d') = length (rows d)"
        "\<forall>i < length (rows d). (rows d' ! i) ORDER_COL = Some (Num (real i + 1)) \<and>
          (\<forall>c. c \<noteq> ORDER_COL \<and> \<not> (is_unnamed c \<and> c \<in> set (columns d)) \<longrightarrow>
               (rows d' ! i) c = (rows d ! i) c)"
      by blast
    from keys [OF d'(2)] d'(3)
    have "map (\<lambda>r. r ORDER_COL) (rows d') =
        map (\<lambda>i. Some (Num (real i))) [1..<Suc (length (rows d))]"
      by simp
    with d' show ?thesis by blast
  qed
  have b: "\<exists>d'. prepare d = Inr d' \<and> length (rows d') = length (rows d) \<and>
         map (\<lambda>r. r ORDER_COL) (rows d') =
           map (\<lambda>i. Some (Num (real i))) [1..<Suc (length (rows d))] \<and>
         (\<forall>i < length (rows d). \<forall>c \<in> set (columns d). \<not> is_unnamed c \<longrightarrow>
              (rows d' ! i) c = (rows d ! i) c)"
    if "ORDER_COL \<notin> set (columns d)"
  proof -
    from prepare_absent [OF that] obtain d' where
      d': "prepare d = Inr d'" "length (rows d') = length (rows d)"
        "\<forall>i < length (rows d). (rows d' ! i) ORDER_COL = Some (Num (real i + 1)) \<and>
          (\<forall>c \<in> set (columns d). \<not> is_unnamed c \<longrightarrow> (rows d' ! i) c = (rows d ! i) c)"
      by blast
    from keys [OF d'(2)] d'(3)
    have "map (\<lambda>r. r ORDER_COL) (rows d') =
        map (\<lambda>i. Some (Num (real i))) [1..<Suc (length (rows d))]"
      by simp
    with d' show ?thesis by blast
  qed
  have c: "\<forall>d'. ensure_order d = Inr d' \<longrightarrow>
      sorted (map (\<lambda>r. sort_rank (r ORDER_COL)) (rows d'))"
    by (auto simp: ensure_order_def Let_def dest: sort_values_sorted)
  have e: "\<exists>f'. df s' = Some f' \<and>
         map (\<lambda>r. r ORDER_COL) (rows f') = map (\<lambda>r. r ORDER_COL) (rows f)"
    if "df s = Some f" "run ti w s = (s', err, out)"
  proof -
    from that run_loaded [OF that(1), where w = w and ti = ti] have "script ti w s f = (s', out)"
      by (simp add: prod_eq_iff)
    from script_order [OF this that(1)] show ?thesis .
  qed
  from a b c e view_subset [of f b] show ?thesis by blast
qed

theorem order_keys_assigned_once_witness:
  "ORDER_COL \<notin> set (columns raw_frame) \<and>
   (\<exists>d'. ensure_order raw_frame = Inr d' \<and>
      map (\<lambda>r. r ORDER_COL) (rows d') = [Some (Num 1), Some (Num 2)] \<and>
      (rows d' ! 1) COL_COMPANY = Some (Str (ascii ''Bolt''))) \<and>
   (\<exists>d'. prepare raw_frame = Inr d' \<and>
      map (\<lambda>r. r ORDER_COL) (rows d') = [Some (Num 1), Some (Num 2)] \<and>
      (rows d' ! 0) COL_COMPANY = Some (Str (ascii ''Acme''))) \<and>
   df example_session = Some example_frame \<and>
   map (\<lambda>r. r ORDER_COL) (rows (the (df (fst (run no_text_int save_widgets example_session))))) =
     [Some (Num 1), Some (Num 2), Some (Num 3)]"
proof -
  have ne: "ORDER_COL \<noteq> COL_COMPANY"
    by (simp add: ORDER_COL_def COL_COMPANY_def ascii_def)
  have no: "ORDER_COL \<notin> set (columns raw_frame)"
    using ne by (simp add: raw_frame_def)
  have un: "\<not> is_unnamed COL_COMPANY"
    by (simp add: is_unnamed_def startswith_def lower_def lower_cp_def strip_def isspace_def
        COL_COMPANY_def ascii_def)
  have len: "length (rows raw_frame) = 2" and col: "COL_COMPANY \<in> set (columns raw_frame)"
    and cells: "(rows raw_frame ! 0) COL_COMPANY = Some (Str (ascii ''Acme''))"
      "(rows raw_frame ! 1) COL_COMPANY = Some (Str (ascii ''Bolt''))"
    by (simp_all add: raw_frame_def)
  have upt: "map (\<lambda>i. Some (Num (real i))) [1..<Suc (length (rows raw_frame))] =
      [Some (Num 1), Some (Num 2)]"
    by (simp add: len upt_rec)
  have d: "df example_session = Some example_frame"
    by (simp add: example_session_def)
  have r: "run no_text_int save_widgets example_session =
      (fst (run no_text_int save_widgets example_session), fst (snd (run no_text_int save_widgets example_session)),
       snd (snd (run no_text_int save_widgets example_session)))"
    by simp
  note t = order_keys_assigned_once [where d = raw_frame and s = example_session
      and f = example_frame and w = save_widgets and ti = no_text_int
      and s' = "fst (run no_text_int save_widgets example_session)"
      and err = "fst (snd (run no_text_int save_widgets example_session))"
      and out = "snd (snd (run no_text_int save_widgets example_session))" and b = True]
  from t no obtain d1 where d1: "ensure_order raw_frame = Inr d1"
      "map (\<lambda>r. r ORDER_COL) (rows d1) =
         map (\<lambda>i. Some (Num (real i))) [1..<Suc (length (rows raw_frame))]"
      "\<forall>i < length (rows raw_frame). (rows d1 ! i) ORDER_COL = Some (Num (real i + 1)) \<and>
         (\<forall>c. c \<noteq> ORDER_COL \<and> \<not> is_unnamed c \<longrightarrow> (rows d1 ! i) c = (rows raw_frame ! i) c)"
    by blast
  from d1(3) len ne un cells(2) have c1: "(rows d1 ! 1) COL_COMPANY = Some (Str (ascii ''Bolt''))"
    by simp
  from t no obtain d2 where d2: "prepare raw_frame = Inr d2"
      "map (\<lambda>r. r ORDER_COL) (rows d2) =
         map (\<lambda>i. Some (Num (real i))) [1..<Suc (length (rows raw_frame))]"
      "\<forall>i < length (rows raw_frame). \<forall>c \<in> set (columns raw_frame). \<not> is_unnamed c \<longrightarrow>
         (rows d2 ! i) c = (rows raw_frame ! i) c"
    by blast
  from d2(3) len col un cells(1) have c2: "(rows d2 ! 0) COL_COMPANY = Some (Str (ascii ''Acme''))"
    by simp
  from t d r obtain f' where f': "df (fst (run no_text_int save_widgets example_session)) = Some f'"
      "map (\<lambda>r. r ORDER_COL) (rows f') = map (\<lambda>r. r ORDER_COL) (rows example_frame)"
    by blast
  have 1: "\<exists>d'. ensure_order raw_frame = Inr d' \<and>
      map (\<lambda>r. r ORDER_COL) (rows d') = [Some (Num 1), Some (Num 2)] \<and>
      (rows d' ! 1) COL_COMPANY = Some (Str (ascii ''Bolt''))"
    using d1(1) d1(2) [unfolded upt] c1 by simp
  have 2: "\<exists>d'. prepare raw_frame = Inr d' \<and>
      map (\<lambda>r. r ORDER_COL) (rows d') = [Some (Num 1), Some (Num 2)] \<and>
      (rows d' ! 0) COL_COMPANY = Some (Str (ascii ''Acme''))"
    using d2(1) d2(2) [unfolded upt] c2 by simp
  have 3: "map (\<lambda>r. r ORDER_COL) (rows (the (df (fst (run no_text_int save_widgets example_session))))) =
     [Some (Num 1), Some (Num 2), Some (Num 3)]"
    using f' by (simp add: example_orders)
  show ?thesis by (intro conjI no 1 2 d 3)
qed

end
